theory Spec2Isabelle
  imports Main "HOL-Library.Word"
begin

unbundle bit_operations_syntax

section \<open>The CHIP-8 virtual machine: data model\<close>

text \<open>
  The interpreter lives in the \<open>chip8\<close> package. Its fixed-size Go arrays are modelled
  as total functions from the index (a \<open>nat\<close>) to the element, and every array access
  whose index is not bounded by construction carries the bounds check that the Go runtime
  performs: an index out of range is a panic, here the value \<open>Inl IndexOutOfRange\<close>.
  The model never writes outside the bounds of an array.
\<close>

type_synonym byte = "8 word"
type_synonym u16 = "16 word"

abbreviation DisplayWidth :: nat where "DisplayWidth \<equiv> 64"
abbreviation DisplayHeight :: nat where "DisplayHeight \<equiv> 32"
abbreviation MemorySize :: nat where "MemorySize \<equiv> 4096"
abbreviation ProgramStartAddr :: nat where "ProgramStartAddr \<equiv> 512"
abbreviation FontEndAddr :: nat where "FontEndAddr \<equiv> 80"
abbreviation RegisterCount :: nat where "RegisterCount \<equiv> 16"
abbreviation StackSize :: nat where "StackSize \<equiv> 16"
abbreviation KeyCount :: nat where "KeyCount \<equiv> 16"
abbreviation SpriteWidth :: nat where "SpriteWidth \<equiv> 8"
abbreviation VFRegister :: nat where "VFRegister \<equiv> 15"

record chip8 =
  V :: "nat \<Rightarrow> byte"
  I :: u16
  PC :: u16
  SP :: byte
  DT :: byte
  ST :: byte
  Memory :: "nat \<Rightarrow> byte"
  Stack :: "nat \<Rightarrow> u16"
  Display :: "nat \<Rightarrow> nat \<Rightarrow> bool"
  Keys :: "nat \<Rightarrow> bool"
  DrawFlag :: bool

datatype error = RomTooLarge | IndexOutOfRange

section \<open>Construction\<close>

definition fontSet :: "byte list" where
  "fontSet =
   [0xF0, 0x90, 0x90, 0x90, 0xF0,
    0x20, 0x60, 0x20, 0x20, 0x70,
    0xF0, 0x10, 0xF0, 0x80, 0xF0,
    0xF0, 0x10, 0xF0, 0x10, 0xF0,
    0x90, 0x90, 0xF0, 0x10, 0x10,
    0xF0, 0x80, 0xF0, 0x10, 0xF0,
    0xF0, 0x80, 0xF0, 0x90, 0xF0,
    0xF0, 0x10, 0x20, 0x40, 0x40,
    0xF0, 0x90, 0xF0, 0x90, 0xF0,
    0xF0, 0x90, 0xF0, 0x10, 0xF0,
    0xF0, 0x90, 0xF0, 0x90, 0x90,
    0xE0, 0x90, 0xE0, 0x90, 0xE0,
    0xF0, 0x80, 0x80, 0x80, 0xF0,
    0xE0, 0x90, 0x90, 0x90, 0xE0,
    0xF0, 0x80, 0xF0, 0x80, 0xF0,
    0xF0, 0x80, 0xF0, 0x80, 0x80]"

text \<open>\<open>New\<close>: a zeroed struct, the font copied to the start of memory, the program
  counter at the program start and the draw flag set.\<close>

definition New :: chip8 where
  "New = \<lparr> V = (\<lambda>_. 0), I = 0, PC = 0x200, SP = 0, DT = 0, ST = 0,
           Memory = (\<lambda>i. if i < length fontSet then fontSet ! i else 0),
           Stack = (\<lambda>_. 0), Display = (\<lambda>_ _. False), Keys = (\<lambda>_. False),
           DrawFlag = True \<rparr>"

section \<open>Loading a program\<close>

text \<open>\<open>for i := FontEndAddr; i < MemorySize; i++ { c.Memory[i] = 0 }\<close>\<close>

function clear_memory :: "nat \<Rightarrow> (nat \<Rightarrow> byte) \<Rightarrow> (nat \<Rightarrow> byte)" where
  "clear_memory i m = (if i < MemorySize then clear_memory (i + 1) (m(i := 0)) else m)"
  by pat_completeness auto
termination
  by (relation "measure (\<lambda>(i, m). MemorySize - i)") auto

declare clear_memory.simps [simp del]

text \<open>\<open>for i := 0; i < len(rom); i++ { c.Memory[ProgramStartAddr+i] = rom[i] }\<close>.
  The loop is only reached when \<open>len(rom) \<le> MemorySize - ProgramStartAddr\<close>, so the
  index stays below \<open>MemorySize\<close>.\<close>

function copy_rom :: "byte list \<Rightarrow> nat \<Rightarrow> (nat \<Rightarrow> byte) \<Rightarrow> (nat \<Rightarrow> byte)" where
  "copy_rom rom i m =
     (if i < length rom then copy_rom rom (i + 1) (m(ProgramStartAddr + i := rom ! i)) else m)"
  by pat_completeness auto
termination
  by (relation "measure (\<lambda>(rom, i, m). length rom - i)") auto

declare copy_rom.simps [simp del]

text \<open>The two nested loops that set every display cell to false (used by the loader and
  by the clear-screen instruction, which repeat the same code).\<close>

function clear_display_row :: "nat \<Rightarrow> nat \<Rightarrow> (nat \<Rightarrow> nat \<Rightarrow> bool) \<Rightarrow> (nat \<Rightarrow> nat \<Rightarrow> bool)" where
  "clear_display_row y x d =
     (if x < DisplayWidth then clear_display_row y (x + 1) (d(y := (d y)(x := False))) else d)"
  by pat_completeness auto
termination
  by (relation "measure (\<lambda>(y, x, d). DisplayWidth - x)") auto

declare clear_display_row.simps [simp del]

function clear_display :: "nat \<Rightarrow> (nat \<Rightarrow> nat \<Rightarrow> bool) \<Rightarrow> (nat \<Rightarrow> nat \<Rightarrow> bool)" where
  "clear_display y d =
     (if y < DisplayHeight then clear_display (y + 1) (clear_display_row y 0 d) else d)"
  by pat_completeness auto
termination
  by (relation "measure (\<lambda>(y, d). DisplayHeight - y)") auto

declare clear_display.simps [simp del]

text \<open>\<open>for i := 0; i < RegisterCount; i++ { c.V[i] = 0 }\<close>\<close>

function reset_registers :: "nat \<Rightarrow> (nat \<Rightarrow> byte) \<Rightarrow> (nat \<Rightarrow> byte)" where
  "reset_registers i v = (if i < RegisterCount then reset_registers (i + 1) (v(i := 0)) else v)"
  by pat_completeness auto
termination
  by (relation "measure (\<lambda>(i, v). RegisterCount - i)") auto

declare reset_registers.simps [simp del]

text \<open>\<open>LoadROMFromBytes\<close> mutates the machine in place and returns an error or nil:
  the model returns the error (if any) together with the machine as the call leaves it.
  Memory is cleared first, then the size is checked.\<close>

definition LoadROMFromBytes :: "byte list \<Rightarrow> chip8 \<Rightarrow> error option \<times> chip8" where
  "LoadROMFromBytes rom c =
     (let c1 = c\<lparr>Memory := clear_memory FontEndAddr (Memory c)\<rparr>;
          maxRomSize = MemorySize - ProgramStartAddr
      in if length rom > maxRomSize then (Some RomTooLarge, c1)
         else
           let c2 = c1\<lparr>Memory := copy_rom rom 0 (Memory c1)\<rparr>;
               c3 = c2\<lparr>PC := 0x200, I := 0, SP := 0, DT := 0, ST := 0, DrawFlag := True\<rparr>;
               c4 = c3\<lparr>Display := clear_display 0 (Display c3)\<rparr>;
               c5 = c4\<lparr>V := reset_registers 0 (V c4)\<rparr>
           in (None, c5))"

section \<open>Timers\<close>

definition UpdateTimers :: "chip8 \<Rightarrow> chip8" where
  "UpdateTimers c =
     (let c1 = (if DT c > 0 then c\<lparr>DT := DT c - 1\<rparr> else c)
      in if ST c1 > 0 then c1\<lparr>ST := ST c1 - 1\<rparr> else c1)"

section \<open>The fetch-decode-execute cycle\<close>

text \<open>The operand fields of an opcode. The register numbers are at most 15 by the mask,
  so the accesses \<open>c.V[x]\<close> and \<open>c.V[y]\<close> are always within the 16 registers.\<close>

definition Xreg :: "u16 \<Rightarrow> nat" where
  "Xreg opcode = unat (drop_bit 8 (opcode AND 0x0F00))"

definition Yreg :: "u16 \<Rightarrow> nat" where
  "Yreg opcode = unat (drop_bit 4 (opcode AND 0x00F0))"

text \<open>\<open>opcode := uint16(c.Memory[c.PC])<<8 | uint16(c.Memory[c.PC+1])\<close>: both reads are
  bounds-checked, and \<open>c.PC+1\<close> is 16-bit arithmetic.\<close>

definition fetch :: "chip8 \<Rightarrow> u16 option" where
  "fetch c =
     (if unat (PC c) < MemorySize \<and> unat (PC c + 1) < MemorySize
      then Some (push_bit 8 (ucast (Memory c (unat (PC c))) :: u16)
                 OR ucast (Memory c (unat (PC c + 1))))
      else None)"

text \<open>Opcode group \<open>0x0000\<close>: clear screen and return.\<close>

definition exec_0 :: "u16 \<Rightarrow> chip8 \<Rightarrow> error + chip8" where
  "exec_0 opcode c =
     (let lo = opcode AND 0x00FF in
      if lo = 0x00E0 then Inr (c\<lparr>Display := clear_display 0 (Display c), DrawFlag := True\<rparr>)
      else if lo = 0x00EE then
        (let c1 = c\<lparr>SP := SP c - 1\<rparr> in
         if unat (SP c1) < StackSize then Inr (c1\<lparr>PC := Stack c1 (unat (SP c1))\<rparr>)
         else Inl IndexOutOfRange)
      else Inr c)"

text \<open>Opcode group \<open>0x8000\<close>: the register-register operations. The statements of each
  case run in the source's order, each reading the registers as its predecessor left
  them.\<close>

definition exec_8 :: "u16 \<Rightarrow> chip8 \<Rightarrow> chip8" where
  "exec_8 opcode c =
     (let x = Xreg opcode; y = Yreg opcode; n = opcode AND 0x000F in
      if n = 0x0 then c\<lparr>V := (V c)(x := V c y)\<rparr>
      else if n = 0x1 then c\<lparr>V := (V c)(x := V c x OR V c y)\<rparr>
      else if n = 0x2 then c\<lparr>V := (V c)(x := V c x AND V c y)\<rparr>
      else if n = 0x3 then c\<lparr>V := (V c)(x := V c x XOR V c y)\<rparr>
      else if n = 0x4 then
        (let sum = (ucast (V c x) :: u16) + ucast (V c y);
             c1 = c\<lparr>V := (V c)(VFRegister := (if sum > 0xFF then 1 else 0))\<rparr>
         in c1\<lparr>V := (V c1)(x := ucast sum)\<rparr>)
      else if n = 0x5 then
        (let c1 = c\<lparr>V := (V c)(VFRegister := (if V c x > V c y then 1 else 0))\<rparr>
         in c1\<lparr>V := (V c1)(x := V c1 x - V c1 y)\<rparr>)
      else if n = 0x6 then
        (let c1 = c\<lparr>V := (V c)(VFRegister := V c x AND 0x1)\<rparr>
         in c1\<lparr>V := (V c1)(x := drop_bit 1 (V c1 x))\<rparr>)
      else if n = 0x7 then
        (let c1 = c\<lparr>V := (V c)(VFRegister := (if V c y > V c x then 1 else 0))\<rparr>
         in c1\<lparr>V := (V c1)(x := V c1 y - V c1 x)\<rparr>)
      else if n = 0xE then
        (let c1 = c\<lparr>V := (V c)(VFRegister := drop_bit 7 (V c x))\<rparr>
         in c1\<lparr>V := (V c1)(x := push_bit 1 (V c1 x))\<rparr>)
      else c)"

text \<open>The draw instruction. The inner loop walks the 8 columns of one sprite byte and
  stops at the right edge; the outer loop walks the rows and stops at the bottom edge.
  The loop counters and the coordinates are \<open>uint16\<close> in the source; they stay below
  \<open>64 + 8\<close>, so they are \<open>nat\<close> here, and only the address \<open>c.I+row\<close> is computed in
  16 bits.\<close>

function draw_cols :: "byte \<Rightarrow> nat \<Rightarrow> nat \<Rightarrow> nat \<Rightarrow> chip8 \<Rightarrow> chip8" where
  "draw_cols sprite x yr col c =
     (if col < SpriteWidth then
        if x + col \<ge> DisplayWidth then c
        else if sprite AND drop_bit col 0x80 \<noteq> 0 then
          (let c1 = (if Display c yr (x + col) then c\<lparr>V := (V c)(VFRegister := 1)\<rparr> else c);
               c2 = c1\<lparr>Display := (Display c1)(yr := (Display c1 yr)(x + col := \<not> Display c1 yr (x + col)))\<rparr>
           in draw_cols sprite x yr (col + 1) c2)
        else draw_cols sprite x yr (col + 1) c
      else c)"
  by pat_completeness auto
termination
  by (relation "measure (\<lambda>(sprite, x, yr, col, c). SpriteWidth - col)") auto

declare draw_cols.simps [simp del]

function draw_rows :: "nat \<Rightarrow> nat \<Rightarrow> nat \<Rightarrow> nat \<Rightarrow> chip8 \<Rightarrow> error + chip8" where
  "draw_rows x y height row c =
     (if row < height then
        if y + row \<ge> DisplayHeight then Inr c
        else if unat (I c + of_nat row) < MemorySize then
          draw_rows x y height (row + 1)
            (draw_cols (Memory c (unat (I c + of_nat row))) x (y + row) 0 c)
        else Inl IndexOutOfRange
      else Inr c)"
  by pat_completeness auto
termination
  by (relation "measure (\<lambda>(x, y, height, row, c). height - row)") auto

declare draw_rows.simps [simp del]

definition exec_D :: "u16 \<Rightarrow> chip8 \<Rightarrow> error + chip8" where
  "exec_D opcode c =
     (let x = unat (V c (Xreg opcode)) mod DisplayWidth;
          y = unat (V c (Yreg opcode)) mod DisplayHeight;
          height = unat (opcode AND 0x000F);
          c1 = c\<lparr>V := (V c)(VFRegister := 0)\<rparr>
      in case draw_rows x y height 0 c1 of
           Inl e \<Rightarrow> Inl e
         | Inr c2 \<Rightarrow> Inr (c2\<lparr>DrawFlag := True\<rparr>))"

text \<open>Opcode group \<open>0xE000\<close>: the key tests. The key number is a full register value,
  and the key array has 16 entries.\<close>

definition exec_E :: "u16 \<Rightarrow> chip8 \<Rightarrow> error + chip8" where
  "exec_E opcode c =
     (let x = Xreg opcode; lo = opcode AND 0x00FF in
      if lo = 0x009E then
        (if unat (V c x) < KeyCount
         then Inr (if Keys c (unat (V c x)) then c\<lparr>PC := PC c + 2\<rparr> else c)
         else Inl IndexOutOfRange)
      else if lo = 0x00A1 then
        (if unat (V c x) < KeyCount
         then Inr (if \<not> Keys c (unat (V c x)) then c\<lparr>PC := PC c + 2\<rparr> else c)
         else Inl IndexOutOfRange)
      else Inr c)"

text \<open>The key scan of wait-for-key: the first pressed key in ascending order is stored
  and the scan stops; the result says whether a key was found.\<close>

function scan_keys :: "nat \<Rightarrow> nat \<Rightarrow> chip8 \<Rightarrow> chip8 \<times> bool" where
  "scan_keys x i c =
     (if i < KeyCount then
        if Keys c i then (c\<lparr>V := (V c)(x := of_nat i)\<rparr>, True)
        else scan_keys x (i + 1) c
      else (c, False))"
  by pat_completeness auto
termination
  by (relation "measure (\<lambda>(x, i, c). KeyCount - i)") auto

declare scan_keys.simps [simp del]

text \<open>\<open>for i := uint16(0); i <= x; i++ { c.Memory[c.I+i] = c.V[i] }\<close> and its inverse.
  The address \<open>c.I+i\<close> is 16-bit arithmetic and is bounds-checked against the memory.\<close>

function store_registers :: "nat \<Rightarrow> nat \<Rightarrow> chip8 \<Rightarrow> error + chip8" where
  "store_registers x i c =
     (if i \<le> x then
        if unat (I c + of_nat i) < MemorySize
        then store_registers x (i + 1) (c\<lparr>Memory := (Memory c)(unat (I c + of_nat i) := V c i)\<rparr>)
        else Inl IndexOutOfRange
      else Inr c)"
  by pat_completeness auto
termination
  by (relation "measure (\<lambda>(x, i, c). Suc x - i)") auto

declare store_registers.simps [simp del]

function load_registers :: "nat \<Rightarrow> nat \<Rightarrow> chip8 \<Rightarrow> error + chip8" where
  "load_registers x i c =
     (if i \<le> x then
        if unat (I c + of_nat i) < MemorySize
        then load_registers x (i + 1) (c\<lparr>V := (V c)(i := Memory c (unat (I c + of_nat i)))\<rparr>)
        else Inl IndexOutOfRange
      else Inr c)"
  by pat_completeness auto
termination
  by (relation "measure (\<lambda>(x, i, c). Suc x - i)") auto

declare load_registers.simps [simp del]

text \<open>Opcode group \<open>0xF000\<close>.\<close>

definition exec_F :: "u16 \<Rightarrow> chip8 \<Rightarrow> error + chip8" where
  "exec_F opcode c =
     (let x = Xreg opcode; lo = opcode AND 0x00FF in
      if lo = 0x0007 then Inr (c\<lparr>V := (V c)(x := DT c)\<rparr>)
      else if lo = 0x000A then
        (case scan_keys x 0 c of
           (c1, keyPressed) \<Rightarrow> Inr (if \<not> keyPressed then c1\<lparr>PC := PC c1 - 2\<rparr> else c1))
      else if lo = 0x0015 then Inr (c\<lparr>DT := V c x\<rparr>)
      else if lo = 0x0018 then Inr (c\<lparr>ST := V c x\<rparr>)
      else if lo = 0x001E then
        (let c1 = c\<lparr>V := (V c)(VFRegister := (if I c + ucast (V c x) > 0xFFF then 1 else 0))\<rparr>
         in Inr (c1\<lparr>I := I c1 + ucast (V c1 x)\<rparr>))
      else if lo = 0x0029 then Inr (c\<lparr>I := ucast (V c x * 5)\<rparr>)
      else if lo = 0x0033 then
        (if unat (I c) < MemorySize \<and> unat (I c + 1) < MemorySize \<and> unat (I c + 2) < MemorySize
         then
           (let c1 = c\<lparr>Memory := (Memory c)(unat (I c) := V c x div 100)\<rparr>;
                c2 = c1\<lparr>Memory := (Memory c1)(unat (I c1 + 1) := (V c1 x div 10) mod 10)\<rparr>
            in Inr (c2\<lparr>Memory := (Memory c2)(unat (I c2 + 2) := V c2 x mod 10)\<rparr>))
         else Inl IndexOutOfRange)
      else if lo = 0x0055 then store_registers x 0 c
      else if lo = 0x0065 then load_registers x 0 c
      else Inr c)"

text \<open>The dispatch on the leading nibble. \<open>rnd\<close> is the byte that \<open>rand.Intn(256)\<close>
  returns in this cycle. The machine passed in already has the program counter advanced.\<close>

definition execute :: "byte \<Rightarrow> u16 \<Rightarrow> chip8 \<Rightarrow> error + chip8" where
  "execute rnd opcode c =
     (let hi = opcode AND 0xF000; x = Xreg opcode; y = Yreg opcode in
      if hi = 0x0000 then exec_0 opcode c
      else if hi = 0x1000 then Inr (c\<lparr>PC := opcode AND 0x0FFF\<rparr>)
      else if hi = 0x2000 then
        (if unat (SP c) < StackSize
         then Inr (c\<lparr>Stack := (Stack c)(unat (SP c) := PC c), SP := SP c + 1,
                     PC := opcode AND 0x0FFF\<rparr>)
         else Inl IndexOutOfRange)
      else if hi = 0x3000 then
        Inr (if V c x = ucast (opcode AND 0x00FF) then c\<lparr>PC := PC c + 2\<rparr> else c)
      else if hi = 0x4000 then
        Inr (if V c x \<noteq> ucast (opcode AND 0x00FF) then c\<lparr>PC := PC c + 2\<rparr> else c)
      else if hi = 0x5000 then
        Inr (if V c x = V c y then c\<lparr>PC := PC c + 2\<rparr> else c)
      else if hi = 0x6000 then Inr (c\<lparr>V := (V c)(x := ucast (opcode AND 0x00FF))\<rparr>)
      else if hi = 0x7000 then Inr (c\<lparr>V := (V c)(x := V c x + ucast (opcode AND 0x00FF))\<rparr>)
      else if hi = 0x8000 then Inr (exec_8 opcode c)
      else if hi = 0x9000 then
        Inr (if V c x \<noteq> V c y then c\<lparr>PC := PC c + 2\<rparr> else c)
      else if hi = 0xA000 then Inr (c\<lparr>I := opcode AND 0x0FFF\<rparr>)
      else if hi = 0xB000 then Inr (c\<lparr>PC := (opcode AND 0x0FFF) + ucast (V c 0)\<rparr>)
      else if hi = 0xC000 then Inr (c\<lparr>V := (V c)(x := rnd AND ucast (opcode AND 0x00FF))\<rparr>)
      else if hi = 0xD000 then exec_D opcode c
      else if hi = 0xE000 then exec_E opcode c
      else if hi = 0xF000 then exec_F opcode c
      else Inr c)"

definition EmulateCycle :: "byte \<Rightarrow> chip8 \<Rightarrow> error + chip8" where
  "EmulateCycle rnd c =
     (case fetch c of
        None \<Rightarrow> Inl IndexOutOfRange
      | Some opcode \<Rightarrow> execute rnd opcode (c\<lparr>PC := PC c + 2\<rparr>))"

text \<open>Start-up as in \<open>main\<close>: a new machine, then the program is loaded.\<close>

definition boot :: "byte list \<Rightarrow> chip8" where
  "boot rom = snd (LoadROMFromBytes rom New)"

section \<open>Notions used by the properties\<close>

text \<open>
  The defined instruction patterns: the encodings of the instructions in the
  specification's table, with \<open>X\<close> and \<open>Y\<close> register nibbles and \<open>N\<close>, \<open>KK\<close>, \<open>NNN\<close>
  operands. They are \<open>00E0\<close>, \<open>00EE\<close>, \<open>1NNN\<close>, \<open>2NNN\<close>, \<open>3XKK\<close>, \<open>4XKK\<close>, \<open>5XY0\<close>,
  \<open>6XKK\<close>, \<open>7XKK\<close>, \<open>8XY0\<close> to \<open>8XY7\<close>, \<open>8XYE\<close>, \<open>9XY0\<close>, \<open>ANNN\<close>, \<open>BNNN\<close>, \<open>CXKK\<close>,
  \<open>DXYN\<close>, \<open>EX9E\<close>, \<open>EXA1\<close>, \<open>FX07\<close>, \<open>FX0A\<close>, \<open>FX15\<close>, \<open>FX18\<close>, \<open>FX1E\<close>, \<open>FX29\<close>,
  \<open>FX33\<close>, \<open>FX55\<close> and \<open>FX65\<close>. This is the instruction set, not the interpreter's
  dispatch: the dispatch looks at fewer bits of some opcodes.
\<close>

definition defined_opcode :: "u16 \<Rightarrow> bool" where
  "defined_opcode opcode \<longleftrightarrow>
     (let hi = opcode AND 0xF000; lo = opcode AND 0x00FF; n = opcode AND 0x000F in
      opcode = 0x00E0 \<or> opcode = 0x00EE \<or>
      hi \<in> {0x1000, 0x2000, 0x3000, 0x4000, 0x6000, 0x7000} \<or>
      (hi = 0x5000 \<and> n = 0x0) \<or>
      (hi = 0x8000 \<and> n \<in> {0x0, 0x1, 0x2, 0x3, 0x4, 0x5, 0x6, 0x7, 0xE}) \<or>
      (hi = 0x9000 \<and> n = 0x0) \<or>
      hi \<in> {0xA000, 0xB000, 0xC000, 0xD000} \<or>
      (hi = 0xE000 \<and> lo \<in> {0x9E, 0xA1}) \<or>
      (hi = 0xF000 \<and> lo \<in> {0x07, 0x0A, 0x15, 0x18, 0x1E, 0x29, 0x33, 0x55, 0x65}))"

text \<open>
  Two machines used as concrete inputs: the program \<open>F0 29\<close> with register 0 holding 52,
  and the program \<open>8F 04\<close> with registers 0 and 15 holding 1.
\<close>

definition font_overflow_state :: chip8 where
  "font_overflow_state = (boot [0xF0, 0x29])\<lparr>V := (V (boot [0xF0, 0x29]))(0 := 52)\<rparr>"

definition add_to_flag_state :: chip8 where
  "add_to_flag_state = (boot [0x8F, 0x04])\<lparr>V := (V (boot [0x8F, 0x04]))(0 := 1, 15 := 1)\<rparr>"

text \<open>
  The cells that the drawing loops flip, in closed form. \<open>row_cell\<close>: column \<open>j\<close> is hit by
  a set bit of the sprite byte, counting the columns from \<open>col\<close> on and stopping at the
  right edge. \<open>rows_cell\<close>: the same for the rows from \<open>row\<close> on, stopping at the bottom
  edge. \<open>rows_readable\<close>: the sprite rows that are drawn lie inside memory.
\<close>

definition row_cell :: "byte \<Rightarrow> nat \<Rightarrow> nat \<Rightarrow> nat \<Rightarrow> bool" where
  "row_cell sprite x col j \<longleftrightarrow>
     x + col \<le> j \<and> j < x + SpriteWidth \<and> j < DisplayWidth \<and> bit sprite (7 - (j - x))"

definition rows_cell :: "(nat \<Rightarrow> byte) \<Rightarrow> u16 \<Rightarrow> nat \<Rightarrow> nat \<Rightarrow> nat \<Rightarrow> nat \<Rightarrow> nat \<Rightarrow> nat \<Rightarrow> bool" where
  "rows_cell mem i x y row height r j \<longleftrightarrow>
     y + row \<le> r \<and> r < y + height \<and> r < DisplayHeight \<and>
     row_cell (mem (unat (i + of_nat (r - y)))) x 0 j"

definition rows_readable :: "chip8 \<Rightarrow> nat \<Rightarrow> nat \<Rightarrow> nat \<Rightarrow> bool" where
  "rows_readable c y row height \<longleftrightarrow>
     (\<forall>k. row \<le> k \<and> k < height \<and> y + k < DisplayHeight \<longrightarrow> unat (I c + of_nat k) < MemorySize)"

text \<open>
  The draw instruction as the specification words it. \<open>sprite_pixel\<close>: the sprite of the
  given height, placed with its top-left corner at \<open>(x, y)\<close> and read from memory at the
  index register, has a set bit at display cell \<open>(r, j)\<close>; rows and columns beyond the
  64 by 32 grid are cut off, not wrapped. \<open>draw_sprite_spec\<close>: every display cell is XORed
  with the sprite, register 15 becomes 1 if a set cell is flipped to unset and 0
  otherwise, and the draw flag is set.
\<close>

definition sprite_pixel :: "chip8 \<Rightarrow> nat \<Rightarrow> nat \<Rightarrow> nat \<Rightarrow> nat \<Rightarrow> nat \<Rightarrow> bool" where
  "sprite_pixel c x y height r j \<longleftrightarrow>
     y \<le> r \<and> r < y + height \<and> r < DisplayHeight \<and>
     x \<le> j \<and> j < x + SpriteWidth \<and> j < DisplayWidth \<and>
     bit (Memory c (unat (I c + of_nat (r - y)))) (7 - (j - x))"

definition draw_sprite_spec :: "u16 \<Rightarrow> chip8 \<Rightarrow> chip8" where
  "draw_sprite_spec opcode c =
     (let x = unat (V c (Xreg opcode)) mod DisplayWidth;
          y = unat (V c (Yreg opcode)) mod DisplayHeight;
          height = unat (opcode AND 0x000F)
      in c\<lparr>V := (V c)(VFRegister :=
                    (if \<exists>r\<in>{..<DisplayHeight}. \<exists>j\<in>{..<DisplayWidth}.
                          sprite_pixel c x y height r j \<and> Display c r j
                     then 1 else 0)),
            Display := (\<lambda>r j. Display c r j \<noteq> sprite_pixel c x y height r j),
            DrawFlag := True\<rparr>)"

text \<open>
  Two more machines used as concrete inputs: a one-row draw at register values
  \<open>(126, 33)\<close>, that is at cell \<open>(62, 1)\<close>, of the font byte \<open>0xF0\<close>; and two one-row draws
  of a zero sprite byte.
\<close>

definition clip_state :: chip8 where
  "clip_state = (boot [0xD0, 0x11])\<lparr>V := (\<lambda>_. 0)(0 := 126, 1 := 33)\<rparr>"

definition blank_sprite_state :: chip8 where
  "blank_sprite_state = (boot [0xD0, 0x01, 0xD0, 0x01])\<lparr>I := 0x300\<rparr>"

text \<open>
  The machines that the host program can produce: it creates one, loads programs (the
  machine is kept when a load is rejected), writes the key array, runs cycles, ticks the
  timers and clears the draw flag after drawing.
\<close>

inductive reachable :: "chip8 \<Rightarrow> bool" where
  start: "reachable New"
| load: "reachable c \<Longrightarrow> reachable (snd (LoadROMFromBytes rom c))"
| key: "reachable c \<Longrightarrow> k < KeyCount \<Longrightarrow> reachable (c\<lparr>Keys := (Keys c)(k := b)\<rparr>)"
| cycle: "reachable c \<Longrightarrow> EmulateCycle rnd c = Inr c' \<Longrightarrow> reachable c'"
| tick: "reachable c \<Longrightarrow> reachable (UpdateTimers c)"
| drawn: "reachable c \<Longrightarrow> reachable (c\<lparr>DrawFlag := False\<rparr>)"

text \<open>
  The index conditions under which a cycle runs through: both bytes of the opcode lie in
  memory, and the instruction's own array accesses are in range.
\<close>

definition instr_in_bounds :: "u16 \<Rightarrow> chip8 \<Rightarrow> bool" where
  "instr_in_bounds opcode c \<longleftrightarrow>
     (let hi = opcode AND 0xF000; lo = opcode AND 0x00FF; x = Xreg opcode in
      if hi = 0x0000 \<and> lo = 0x00EE then 1 \<le> unat (SP c) \<and> unat (SP c) \<le> StackSize
      else if hi = 0x2000 then unat (SP c) < StackSize
      else if hi = 0xD000 then
        (\<forall>row\<in>{..<unat (opcode AND 0x000F)}.
            unat (V c (Yreg opcode)) mod DisplayHeight + row < DisplayHeight \<longrightarrow>
            unat (I c + of_nat row) < MemorySize)
      else if hi = 0xE000 \<and> (lo = 0x009E \<or> lo = 0x00A1) then unat (V c x) < KeyCount
      else if hi = 0xF000 \<and> lo = 0x0033 then
        unat (I c) < MemorySize \<and> unat (I c + 1) < MemorySize \<and> unat (I c + 2) < MemorySize
      else if hi = 0xF000 \<and> (lo = 0x0055 \<or> lo = 0x0065) then
        (\<forall>i\<in>{..x}. unat (I c + of_nat i) < MemorySize)
      else True)"

definition cycle_in_bounds :: "chip8 \<Rightarrow> bool" where
  "cycle_in_bounds c \<longleftrightarrow>
     unat (PC c) < MemorySize \<and> unat (PC c + 1) < MemorySize \<and>
     (case fetch c of None \<Rightarrow> False | Some opcode \<Rightarrow> instr_in_bounds opcode c)"

section \<open>Properties of the loader\<close>

text \<open>Each loop of the loader in closed form.\<close>

lemma clear_memory_eq:
  "clear_memory i m = (\<lambda>j. if i \<le> j \<and> j < MemorySize then 0 else m j)"
proof (induction i m rule: clear_memory.induct)
  case (1 i m)
  show ?case
  proof (cases "i < MemorySize")
    case True
    then show ?thesis
      by (subst clear_memory.simps) (simp only: if_True 1 [OF True], auto simp: fun_eq_iff)
  next
    case False
    then show ?thesis
      by (subst clear_memory.simps) (auto simp: fun_eq_iff)
  qed
qed

lemma copy_rom_eq:
  "copy_rom rom i m =
     (\<lambda>j. if ProgramStartAddr + i \<le> j \<and> j < ProgramStartAddr + length rom
          then rom ! (j - ProgramStartAddr) else m j)"
proof (induction rom i m rule: copy_rom.induct)
  case (1 rom i m)
  show ?case
  proof (cases "i < length rom")
    case True
    then show ?thesis
      by (subst copy_rom.simps) (simp only: if_True 1 [OF True], auto simp: fun_eq_iff)
  next
    case False
    then show ?thesis
      by (subst copy_rom.simps) (auto simp: fun_eq_iff)
  qed
qed

lemma clear_display_row_eq:
  "clear_display_row y x d =
     (\<lambda>r k. if r = y \<and> x \<le> k \<and> k < DisplayWidth then False else d r k)"
proof (induction y x d rule: clear_display_row.induct)
  case (1 y x d)
  show ?case
  proof (cases "x < DisplayWidth")
    case True
    then show ?thesis
      by (subst clear_display_row.simps) (simp only: if_True 1 [OF True], auto simp: fun_eq_iff)
  next
    case False
    then show ?thesis
      by (subst clear_display_row.simps) (auto simp: fun_eq_iff)
  qed
qed

lemma clear_display_eq:
  "clear_display y d =
     (\<lambda>r k. if y \<le> r \<and> r < DisplayHeight \<and> k < DisplayWidth then False else d r k)"
proof (induction y d rule: clear_display.induct)
  case (1 y d)
  show ?case
  proof (cases "y < DisplayHeight")
    case True
    then show ?thesis
      by (subst clear_display.simps) (simp only: if_True 1 [OF True], auto simp: clear_display_row_eq fun_eq_iff)
  next
    case False
    then show ?thesis
      by (subst clear_display.simps) (auto simp: fun_eq_iff)
  qed
qed

lemma reset_registers_eq:
  "reset_registers i v = (\<lambda>j. if i \<le> j \<and> j < RegisterCount then 0 else v j)"
proof (induction i v rule: reset_registers.induct)
  case (1 i v)
  show ?case
  proof (cases "i < RegisterCount")
    case True
    then show ?thesis
      by (subst reset_registers.simps) (simp only: if_True 1 [OF True], auto simp: fun_eq_iff)
  next
    case False
    then show ?thesis
      by (subst reset_registers.simps) (auto simp: fun_eq_iff)
  qed
qed

lemma LoadROMFromBytes_eq:
  "LoadROMFromBytes rom c =
     (if length rom > 3584
      then (Some RomTooLarge,
            c\<lparr>Memory := (\<lambda>j. if 80 \<le> j \<and> j < 4096 then 0 else Memory c j)\<rparr>)
      else (None,
            c\<lparr>Memory := (\<lambda>j. if 512 \<le> j \<and> j < 512 + length rom then rom ! (j - 512)
                             else if 80 \<le> j \<and> j < 4096 then 0 else Memory c j),
              PC := 0x200, I := 0, SP := 0, DT := 0, ST := 0, DrawFlag := True,
              Display := (\<lambda>r k. if r < 32 \<and> k < 64 then False else Display c r k),
              V := (\<lambda>j. if j < 16 then 0 else V c j)\<rparr>))"
  by (simp add: LoadROMFromBytes_def Let_def clear_memory_eq copy_rom_eq clear_display_eq
      reset_registers_eq cong: if_cong)

text \<open>
  Claim C1, as amended. For every byte sequence longer than 3584 bytes the loader returns
  the too-large error. The size check runs after the clearing loop, so the call zeroes
  memory bytes 80 to 4095; the font table in bytes 0 to 79 and every other field of the
  machine (registers, index, program counter, stack, stack pointer, timers, display, keys,
  draw flag) are unchanged.
\<close>

theorem LoadROMFromBytes_too_large:
  assumes "length b > 3584"
  shows "LoadROMFromBytes b c =
           (Some RomTooLarge,
            c\<lparr>Memory := (\<lambda>i. if 80 \<le> i \<and> i < 4096 then 0 else Memory c i)\<rparr>)"
  using assms by (simp add: LoadROMFromBytes_eq)

theorem LoadROMFromBytes_too_large_witness:
  "length (replicate 3585 (0::byte)) > 3584 \<and>
   LoadROMFromBytes (replicate 3585 0) New =
     (Some RomTooLarge,
      New\<lparr>Memory := (\<lambda>i. if 80 \<le> i \<and> i < 4096 then 0 else Memory New i)\<rparr>)"
  using LoadROMFromBytes_too_large [of "replicate 3585 0" New] by simp

text \<open>
  Claim C1 as stated fails: a machine that holds a program loses it when an oversized
  image is rejected. After loading the two-byte program \<open>12 00\<close>, memory byte 512 is
  \<open>0x12\<close>; the rejected load of 3585 bytes leaves it 0.
\<close>

theorem LoadROMFromBytes_too_large_mutates:
  "fst (LoadROMFromBytes (replicate 3585 0) (boot [0x12, 0x00])) = Some RomTooLarge \<and>
   Memory (snd (LoadROMFromBytes (replicate 3585 0) (boot [0x12, 0x00]))) 512
     \<noteq> Memory (boot [0x12, 0x00]) 512"
  by (simp add: boot_def LoadROMFromBytes_eq)

text \<open>
  Claim C4. For every byte sequence of at most 3584 bytes the loader succeeds; afterwards
  the program counter is 512, the index register, the stack pointer and both timers are
  0, all 16 registers are 0, every display cell is false, memory from 512 holds the
  bytes of the program, and the font table in memory bytes 0 to 79 is as it was.
\<close>

theorem LoadROMFromBytes_ok:
  assumes "length b \<le> 3584"
  shows "\<exists>c'. LoadROMFromBytes b c = (None, c') \<and>
           PC c' = 512 \<and> I c' = 0 \<and> SP c' = 0 \<and> DT c' = 0 \<and> ST c' = 0 \<and>
           (\<forall>i<16. V c' i = 0) \<and>
           (\<forall>y<32. \<forall>x<64. \<not> Display c' y x) \<and>
           (\<forall>i<length b. Memory c' (512 + i) = b ! i) \<and>
           (\<forall>i<80. Memory c' i = Memory c i)"
  using assms by (simp add: LoadROMFromBytes_eq)

theorem LoadROMFromBytes_ok_witness:
  "length [0x12 :: byte, 0x00] \<le> 3584 \<and>
   (\<exists>c'. LoadROMFromBytes [0x12, 0x00] New = (None, c') \<and>
           PC c' = 512 \<and> I c' = 0 \<and> SP c' = 0 \<and> DT c' = 0 \<and> ST c' = 0 \<and>
           (\<forall>i<16. V c' i = 0) \<and>
           (\<forall>y<32. \<forall>x<64. \<not> Display c' y x) \<and>
           (\<forall>i<length [0x12 :: byte, 0x00]. Memory c' (512 + i) = [0x12, 0x00] ! i) \<and>
           (\<forall>i<80. Memory c' i = Memory New i))"
  using LoadROMFromBytes_ok [of "[0x12, 0x00]" New] by simp

section \<open>Properties of single instructions\<close>

lemma unat_ucast_byte: "unat (ucast (b :: byte) :: u16) = unat b"
  using unsigned_less [of b, where 'a = nat]
  by (simp add: unsigned_ucast_eq take_bit_nat_eq_self_iff)

lemma unat_and_le: "unat (w AND m) \<le> unat (m :: 'a :: len word)"
  by (simp add: word_and_le1 word_le_nat_alt [symmetric])

lemma Xreg_less: "Xreg op < 16"
  using unat_and_le [of op "0x0F00"]
  by (simp add: Xreg_def drop_bit_eq_div unat_div)

lemma Yreg_less: "Yreg op < 16"
  using unat_and_le [of op "0x00F0"]
  by (simp add: Yreg_def drop_bit_eq_div unat_div)

lemmas boot_simps = boot_def LoadROMFromBytes_eq New_def

lemmas cycle_simps = EmulateCycle_def fetch_def execute_def Let_def Xreg_def Yreg_def

text \<open>
  Claim C3, as amended. The font-sprite instruction multiplies the register by 5 in 8 bits
  before widening: the index register becomes \<open>(v * 5) mod 256\<close>, which is \<open>v * 5\<close> for
  every \<open>v \<le> 51\<close>, in particular for the sixteen digits that have a glyph.
\<close>

theorem index_to_font_sprite:
  assumes "fetch c = Some op" and "op AND 0xF000 = 0xF000" and "op AND 0x00FF = 0x0029"
  shows "\<exists>c'. EmulateCycle rnd c = Inr c' \<and>
           unat (I c') = (unat (V c (Xreg op)) * 5) mod 256 \<and>
           (unat (V c (Xreg op)) \<le> 51 \<longrightarrow> unat (I c') = unat (V c (Xreg op)) * 5)"
  using assms
  by (simp add: EmulateCycle_def execute_def exec_F_def Let_def unat_ucast_byte unat_word_ariths)

theorem index_to_font_sprite_witness:
  "fetch (boot [0xF0, 0x29]) = Some 0xF029 \<and> (0xF029 :: u16) AND 0xF000 = 0xF000 \<and>
   (0xF029 :: u16) AND 0x00FF = 0x0029 \<and>
   (\<exists>c'. EmulateCycle 0 (boot [0xF0, 0x29]) = Inr c' \<and>
         unat (I c') = (unat (V (boot [0xF0, 0x29]) (Xreg 0xF029)) * 5) mod 256 \<and>
         (unat (V (boot [0xF0, 0x29]) (Xreg 0xF029)) \<le> 51 \<longrightarrow>
            unat (I c') = unat (V (boot [0xF0, 0x29]) (Xreg 0xF029)) * 5))"
proof -
  have f: "fetch (boot [0xF0, 0x29]) = Some 0xF029"
    by (simp add: fetch_def boot_simps)
  have a: "(0xF029 :: u16) AND 0xF000 = 0xF000" and b: "(0xF029 :: u16) AND 0x00FF = 0x0029"
    by simp_all
  from index_to_font_sprite [OF f a b, of 0] f a b show ?thesis
    by blast
qed

text \<open>
  Claim C3 as stated fails at \<open>v = 52\<close>: \<open>52 * 5 = 260\<close>, and the index register
  becomes 4.
\<close>

theorem index_to_font_sprite_wraps:
  "EmulateCycle 0 font_overflow_state = Inr (font_overflow_state\<lparr>PC := 0x202, I := 4\<rparr>) \<and>
   unat (V font_overflow_state 0) * 5 = 260"
  by (simp add: font_overflow_state_def cycle_simps exec_F_def boot_simps)

text \<open>
  The key scan: with no key pressed it changes nothing; otherwise it stores the first
  pressed key.
\<close>

lemma scan_keys_none:
  "(\<forall>k. i \<le> k \<and> k < KeyCount \<longrightarrow> \<not> Keys c k) \<Longrightarrow> scan_keys x i c = (c, False)"
proof (induction x i c rule: scan_keys.induct)
  case (1 x i c)
  show ?case
  proof (cases "i < KeyCount")
    case True
    with "1.prems" have nk: "\<not> Keys c i" by simp
    from "1.prems" have "\<forall>k. i + 1 \<le> k \<and> k < KeyCount \<longrightarrow> \<not> Keys c k" by simp
    with "1.IH" [OF True nk] have "scan_keys x (i + 1) c = (c, False)" .
    with True nk show ?thesis
      by (subst scan_keys.simps) simp
  next
    case False
    then show ?thesis
      by (subst scan_keys.simps) simp
  qed
qed

lemma scan_keys_first:
  "i \<le> k \<Longrightarrow> k < KeyCount \<Longrightarrow> Keys c k \<Longrightarrow> (\<forall>j. i \<le> j \<and> j < k \<longrightarrow> \<not> Keys c j) \<Longrightarrow>
   scan_keys x i c = (c\<lparr>V := (V c)(x := of_nat k)\<rparr>, True)"
proof (induction x i c rule: scan_keys.induct)
  case (1 x i c)
  from "1.prems" have lt: "i < KeyCount" by simp
  show ?case
  proof (cases "Keys c i")
    case True
    with "1.prems" have "k = i"
      by (metis le_neq_implies_less order_refl)
    with True lt show ?thesis
      by (subst scan_keys.simps) simp
  next
    case False
    with "1.prems" have "i + 1 \<le> k"
      by (metis Suc_eq_plus1 Suc_leI le_neq_implies_less)
    moreover from "1.prems" have "\<forall>j. i + 1 \<le> j \<and> j < k \<longrightarrow> \<not> Keys c j" by simp
    ultimately have "scan_keys x (i + 1) c = (c\<lparr>V := (V c)(x := of_nat k)\<rparr>, True)"
      using "1.IH" [OF lt False] "1.prems" by blast
    with False lt show ?thesis
      by (subst scan_keys.simps) simp
  qed
qed

text \<open>
  Claim C5. The wait-for-key instruction with no key pressed leaves the whole machine as
  it was before the cycle (the program counter is advanced by 2 and rewound by 2). With a
  key pressed it stores the lowest pressed key in the operand register and the program
  counter advances by 2; nothing else changes.
\<close>

theorem wait_for_key:
  assumes "fetch c = Some op" and "op AND 0xF000 = 0xF000" and "op AND 0x00FF = 0x000A"
  shows "((\<forall>k<16. \<not> Keys c k) \<longrightarrow> EmulateCycle rnd c = Inr c) \<and>
         (\<forall>k<16. Keys c k \<and> (\<forall>j<k. \<not> Keys c j) \<longrightarrow>
            EmulateCycle rnd c = Inr (c\<lparr>PC := PC c + 2, V := (V c)(Xreg op := of_nat k)\<rparr>))"
proof (intro conjI allI impI)
  assume "\<forall>k<16. \<not> Keys c k"
  then have "scan_keys (Xreg op) 0 (c\<lparr>PC := PC c + 2\<rparr>) = (c\<lparr>PC := PC c + 2\<rparr>, False)"
    by (intro scan_keys_none) simp
  with assms show "EmulateCycle rnd c = Inr c"
    by (simp add: EmulateCycle_def execute_def exec_F_def Let_def)
next
  fix k :: nat
  assume "k < 16" and "Keys c k \<and> (\<forall>j<k. \<not> Keys c j)"
  then have "scan_keys (Xreg op) 0 (c\<lparr>PC := PC c + 2\<rparr>) =
      ((c\<lparr>PC := PC c + 2\<rparr>)\<lparr>V := (V (c\<lparr>PC := PC c + 2\<rparr>))(Xreg op := of_nat k)\<rparr>, True)"
    by (intro scan_keys_first) simp_all
  with assms show "EmulateCycle rnd c = Inr (c\<lparr>PC := PC c + 2, V := (V c)(Xreg op := of_nat k)\<rparr>)"
    by (simp add: EmulateCycle_def execute_def exec_F_def Let_def)
qed

theorem wait_for_key_witness:
  "fetch (boot [0xF2, 0x0A]) = Some 0xF20A \<and>
   Keys (boot [0xF2, 0x0A]) = (\<lambda>_. False) \<and>
   EmulateCycle 0 (boot [0xF2, 0x0A]) = Inr (boot [0xF2, 0x0A]) \<and>
   Keys ((boot [0xF2, 0x0A])\<lparr>Keys := (\<lambda>_. False)(3 := True, 7 := True)\<rparr>) 3 \<and>
   \<not> Keys ((boot [0xF2, 0x0A])\<lparr>Keys := (\<lambda>_. False)(3 := True, 7 := True)\<rparr>) 0 \<and>
   \<not> Keys ((boot [0xF2, 0x0A])\<lparr>Keys := (\<lambda>_. False)(3 := True, 7 := True)\<rparr>) 1 \<and>
   \<not> Keys ((boot [0xF2, 0x0A])\<lparr>Keys := (\<lambda>_. False)(3 := True, 7 := True)\<rparr>) 2 \<and>
   EmulateCycle 0 ((boot [0xF2, 0x0A])\<lparr>Keys := (\<lambda>_. False)(3 := True, 7 := True)\<rparr>) =
     Inr ((boot [0xF2, 0x0A])\<lparr>Keys := (\<lambda>_. False)(3 := True, 7 := True), PC := 0x202,
            V := (V (boot [0xF2, 0x0A]))(2 := 3)\<rparr>)"
proof -
  let ?c = "boot [0xF2, 0x0A]"
  let ?d = "?c\<lparr>Keys := (\<lambda>_. False)(3 := True, 7 := True)\<rparr>"
  have f: "fetch ?c = Some 0xF20A" and g: "fetch ?d = Some 0xF20A"
    by (simp_all add: fetch_def boot_simps)
  have a: "(0xF20A :: u16) AND 0xF000 = 0xF000" and b: "(0xF20A :: u16) AND 0x00FF = 0x000A"
    by simp_all
  have x: "Xreg 0xF20A = 2"
    by (simp add: Xreg_def)
  have nokey: "\<forall>k<16. \<not> Keys ?c k"
    by (simp add: boot_simps)
  have key: "Keys ?d 3 \<and> (\<forall>j<3. \<not> Keys ?d j)"
    by simp
  have pc: "PC ?d + 2 = 0x202"
    by (simp add: boot_simps)
  from wait_for_key [OF f a b, of 0] nokey have 1: "EmulateCycle 0 ?c = Inr ?c"
    by blast
  have "EmulateCycle 0 ?d = Inr (?d\<lparr>PC := PC ?d + 2, V := (V ?d)(Xreg 0xF20A := of_nat 3)\<rparr>)"
    by (rule wait_for_key [OF g a b, of 0, THEN conjunct2, rule_format, of 3]) (use key in simp_all)
  then have 2: "EmulateCycle 0 ?d = Inr (?d\<lparr>PC := 0x202, V := (V ?c)(2 := 3)\<rparr>)"
    by (simp only: x pc) simp
  have "Keys ?c = (\<lambda>_. False)"
    by (simp add: boot_simps)
  with f 1 2 show ?thesis
    by simp
qed

lemma unat_sum_bytes: "unat ((ucast (a :: byte) :: u16) + ucast (b :: byte)) = unat a + unat b"
proof -
  have "unat a < 256" and "unat b < 256"
    using unsigned_less [of a, where 'a = nat] unsigned_less [of b, where 'a = nat] by simp_all
  then show ?thesis
    by (simp add: unat_word_ariths unat_ucast_byte)
qed

lemma unat_ucast_low: "unat (ucast (w :: u16) :: byte) = unat w mod 256"
  by (simp add: unsigned_ucast_eq take_bit_eq_mod)

text \<open>
  Register-register addition with a destination other than register 15 does what its
  comment says (\<open>Set Vx = Vx + Vy, set VF = carry\<close>): the destination register becomes
  \<open>(x + y) mod 256\<close>, and register 15 becomes 1 if \<open>x + y > 255\<close> and 0 otherwise.
\<close>

lemma add_registers:
  assumes "fetch c = Some op" and "op AND 0xF000 = 0x8000" and "op AND 0x000F = 0x4"
  shows "\<exists>c'. EmulateCycle rnd c = Inr c' \<and>
           unat (V c' (Xreg op)) = (unat (V c (Xreg op)) + unat (V c (Yreg op))) mod 256 \<and>
           (Xreg op \<noteq> 15 \<longrightarrow>
              V c' 15 = (if unat (V c (Xreg op)) + unat (V c (Yreg op)) > 255 then 1 else 0))"
  using assms
  by (simp add: EmulateCycle_def execute_def exec_8_def Let_def unat_ucast_low unat_sum_bytes
      word_less_nat_alt)

lemma add_registers_example:
  "fetch ((boot [0x80, 0x14])\<lparr>V := (\<lambda>_. 0)(0 := 200, 1 := 100)\<rparr>) = Some 0x8014 \<and>
   (0x8014 :: u16) AND 0xF000 = 0x8000 \<and> (0x8014 :: u16) AND 0x000F = 0x4 \<and>
   Xreg 0x8014 \<noteq> 15 \<and>
   (\<exists>c'. EmulateCycle 0 ((boot [0x80, 0x14])\<lparr>V := (\<lambda>_. 0)(0 := 200, 1 := 100)\<rparr>) = Inr c' \<and>
         unat (V c' 0) = 44 \<and> V c' 15 = 1)"
proof -
  let ?c = "(boot [0x80, 0x14])\<lparr>V := (\<lambda>_. 0)(0 := 200, 1 := 100)\<rparr>"
  have f: "fetch ?c = Some 0x8014"
    by (simp add: fetch_def boot_simps)
  have a: "(0x8014 :: u16) AND 0xF000 = 0x8000" and b: "(0x8014 :: u16) AND 0x000F = 0x4"
    by simp_all
  have x: "Xreg 0x8014 = 0" and y: "Yreg 0x8014 = 1"
    by (simp_all add: Xreg_def Yreg_def)
  from add_registers [OF f a b, of 0] f a b show ?thesis
    by (simp add: x y)
qed

text \<open>
  Claim C6. The interpreter does not meet the claim when the destination is register 15.
  It writes the carry to register 15 first and the sum to the destination last, so with
  the destination being register 15 the sum overwrites the carry: \<open>8F04\<close> with registers
  15 and 0 both 1 leaves register 15 equal to 2, where the claim and the comment
  \<open>set VF = carry\<close> ask for 0, since \<open>1 + 1\<close> does not carry.
\<close>

theorem add_registers_flag_destination:
  "EmulateCycle 0 add_to_flag_state =
     Inr (add_to_flag_state\<lparr>PC := 0x202, V := (V add_to_flag_state)(15 := 2)\<rparr>) \<and>
   Xreg 0x8F04 = 15 \<and> Yreg 0x8F04 = 0 \<and>
   unat (V add_to_flag_state 15) + unat (V add_to_flag_state 0) = 2"
  by (simp add: add_to_flag_state_def cycle_simps exec_8_def boot_simps)

text \<open>
  The dispatch does not look at the low nibble of the opcodes \<open>5XY?\<close> and \<open>9XY?\<close>, nor at
  the second nibble of the opcodes of group \<open>0\<close>.
\<close>

lemma execute_low_nibble_ignored:
  assumes "op AND 0xF000 = 0x5000 \<or> op AND 0xF000 = 0x9000"
  shows "execute rnd op c = execute rnd (op AND 0xFFF0) c"
proof -
  have m: "(op AND 0xFFF0) AND 0xF000 = op AND 0xF000"
    "(op AND 0xFFF0) AND 0x0F00 = op AND 0x0F00"
    "(op AND 0xFFF0) AND 0x00F0 = op AND 0x00F0"
    by (simp_all add: and.assoc)
  from assms show ?thesis
  proof
    assume "op AND 0xF000 = 0x5000"
    then show ?thesis
      by (simp add: execute_def Let_def Xreg_def Yreg_def m)
  next
    assume "op AND 0xF000 = 0x9000"
    then show ?thesis
      by (simp add: execute_def Let_def Xreg_def Yreg_def m)
  qed
qed

lemma execute_group_0_low_byte:
  assumes "op AND 0xF000 = 0x0000"
  shows "execute rnd op c = execute rnd (op AND 0x00FF) c"
proof -
  have "(op AND 0x00FF) AND 0xF000 = 0" and "(op AND 0x00FF) AND 0x00FF = op AND 0x00FF"
    by (simp_all add: and.assoc)
  with assms show ?thesis
    by (simp add: execute_def Let_def exec_0_def)
qed

text \<open>
  Claim C9, as amended. An opcode that matches no defined instruction pattern only
  advances the program counter by 2, every other field of the machine unchanged and the
  cycle not failing, unless the dispatch decodes it loosely: \<open>5XY1\<close> to \<open>5XYF\<close> and \<open>9XY1\<close>
  to \<open>9XYF\<close> run as the register comparisons \<open>5XY0\<close> and \<open>9XY0\<close>, and \<open>0NE0\<close> and \<open>0NEE\<close>
  with \<open>N\<close> not 0 run as clear-screen and return.
\<close>

theorem unknown_opcode_noop:
  assumes "fetch c = Some op" and "\<not> defined_opcode op"
  shows "EmulateCycle rnd c =
           (if op AND 0xF000 = 0x5000 \<or> op AND 0xF000 = 0x9000
            then execute rnd (op AND 0xFFF0) (c\<lparr>PC := PC c + 2\<rparr>)
            else if op AND 0xF000 = 0x0000 \<and> (op AND 0x00FF = 0x00E0 \<or> op AND 0x00FF = 0x00EE)
            then execute rnd (op AND 0x00FF) (c\<lparr>PC := PC c + 2\<rparr>)
            else Inr (c\<lparr>PC := PC c + 2\<rparr>))"
proof -
  consider (cmp) "op AND 0xF000 = 0x5000 \<or> op AND 0xF000 = 0x9000"
    | (zero) "op AND 0xF000 = 0x0000" "op AND 0x00FF = 0x00E0 \<or> op AND 0x00FF = 0x00EE"
    | (other) "op AND 0xF000 \<noteq> 0x5000" "op AND 0xF000 \<noteq> 0x9000"
        "\<not> (op AND 0xF000 = 0x0000 \<and> (op AND 0x00FF = 0x00E0 \<or> op AND 0x00FF = 0x00EE))"
    by blast
  then show ?thesis
  proof cases
    case cmp
    with assms(1) execute_low_nibble_ignored [OF cmp] show ?thesis
      by (simp add: EmulateCycle_def)
  next
    case zero
    with assms(1) execute_group_0_low_byte [OF zero(1)] show ?thesis
      by (auto simp: EmulateCycle_def)
  next
    case other
    with assms show ?thesis
      by (simp add: EmulateCycle_def execute_def exec_0_def exec_8_def exec_E_def exec_F_def
          defined_opcode_def Let_def)
  qed
qed

theorem unknown_opcode_noop_witness:
  "fetch (boot [0xE1, 0x00]) = Some 0xE100 \<and> \<not> defined_opcode 0xE100 \<and>
   EmulateCycle 0 (boot [0xE1, 0x00]) = Inr ((boot [0xE1, 0x00])\<lparr>PC := 0x202\<rparr>)"
proof -
  have f: "fetch (boot [0xE1, 0x00]) = Some 0xE100"
    by (simp add: fetch_def boot_simps)
  have n: "\<not> defined_opcode 0xE100"
    by (simp add: defined_opcode_def)
  have "PC (boot [0xE1, 0x00]) + 2 = 0x202"
    by (simp add: boot_simps)
  with unknown_opcode_noop [OF f n, of 0] f n show ?thesis
    by simp
qed

text \<open>
  Claim C9 as stated fails at the opcode \<open>5001\<close>, which is no defined instruction: the
  dispatch compares register 0 with itself and skips, so the program counter advances
  by 4.
\<close>

theorem undefined_compare_opcode_skips:
  "\<not> defined_opcode 0x5001 \<and> fetch (boot [0x50, 0x01]) = Some 0x5001 \<and>
   EmulateCycle 0 (boot [0x50, 0x01]) = Inr ((boot [0x50, 0x01])\<lparr>PC := 0x204\<rparr>)"
  by (simp add: defined_opcode_def cycle_simps boot_simps)


text \<open>
  Claim C10. With the stack pointer at most 15, a call instruction at address \<open>p\<close>
  executes, and a return instruction executed next sets the program counter to
  \<open>p + 2\<close> and the stack pointer to its value before the call, with the stack entries
  below it unchanged.
\<close>

theorem call_return_round_trip:
  assumes "fetch c = Some op" and "op AND 0xF000 = 0x2000" and "unat (SP c) \<le> 15"
  shows "(\<exists>c1. EmulateCycle r1 c = Inr c1) \<and>
         (\<forall>c1 op2. EmulateCycle r1 c = Inr c1 \<and> fetch c1 = Some op2 \<and>
                   op2 AND 0xF000 = 0x0000 \<and> op2 AND 0x00FF = 0x00EE \<longrightarrow>
            (\<exists>c2. EmulateCycle r2 c1 = Inr c2 \<and> PC c2 = PC c + 2 \<and> SP c2 = SP c \<and>
                  (\<forall>i<unat (SP c). Stack c2 i = Stack c i)))"
  using assms
  by (auto simp: EmulateCycle_def execute_def exec_0_def Let_def)

theorem call_return_round_trip_witness:
  "fetch (boot [0x22, 0x04, 0x00, 0x00, 0x00, 0xEE]) = Some 0x2204 \<and>
   (0x2204 :: u16) AND 0xF000 = 0x2000 \<and>
   unat (SP (boot [0x22, 0x04, 0x00, 0x00, 0x00, 0xEE])) \<le> 15 \<and>
   EmulateCycle 0 (boot [0x22, 0x04, 0x00, 0x00, 0x00, 0xEE]) =
     Inr ((boot [0x22, 0x04, 0x00, 0x00, 0x00, 0xEE])
            \<lparr>Stack := (\<lambda>_. 0)(0 := 0x202), SP := 1, PC := 0x204\<rparr>) \<and>
   fetch ((boot [0x22, 0x04, 0x00, 0x00, 0x00, 0xEE])
            \<lparr>Stack := (\<lambda>_. 0)(0 := 0x202), SP := 1, PC := 0x204\<rparr>) = Some 0x00EE \<and>
   (\<exists>c2. EmulateCycle 0 ((boot [0x22, 0x04, 0x00, 0x00, 0x00, 0xEE])
            \<lparr>Stack := (\<lambda>_. 0)(0 := 0x202), SP := 1, PC := 0x204\<rparr>) = Inr c2 \<and>
         PC c2 = 0x202 \<and> SP c2 = 0)"
proof -
  let ?c = "boot [0x22, 0x04, 0x00, 0x00, 0x00, 0xEE]"
  let ?c1 = "?c\<lparr>Stack := (\<lambda>_. 0)(0 := 0x202), SP := 1, PC := 0x204\<rparr>"
  have f: "fetch ?c = Some 0x2204"
    by (simp add: fetch_def boot_simps)
  have a: "(0x2204 :: u16) AND 0xF000 = 0x2000"
    by simp
  have s: "unat (SP ?c) \<le> 15"
    by (simp add: boot_simps)
  have e1: "EmulateCycle 0 ?c = Inr ?c1"
    by (simp add: cycle_simps boot_simps)
  have f1: "fetch ?c1 = Some 0x00EE"
    by (simp add: fetch_def boot_simps)
  have b: "(0x00EE :: u16) AND 0xF000 = 0x0000 \<and> (0x00EE :: u16) AND 0x00FF = 0x00EE"
    by simp
  from call_return_round_trip [OF f a s, of 0 0, THEN conjunct2, rule_format, of ?c1 "0x00EE"]
    e1 f1 b
  have "\<exists>c2. EmulateCycle 0 ?c1 = Inr c2 \<and> PC c2 = PC ?c + 2 \<and> SP c2 = SP ?c \<and>
          (\<forall>i<unat (SP ?c). Stack c2 i = Stack ?c i)"
    by blast
  moreover have "PC ?c + 2 = 0x202" and "SP ?c = 0"
    by (simp_all add: boot_simps)
  ultimately show ?thesis
    using f a s e1 f1 by auto
qed

section \<open>The draw loops\<close>

lemma sprite_mask_bit:
  assumes "col < 8"
  shows "(sprite AND drop_bit col (0x80 :: byte) \<noteq> 0) = bit sprite (7 - col)"
proof -
  from assms have "col \<in> {0, 1, 2, 3, 4, 5, 6, 7}" by auto
  then have "drop_bit col (0x80 :: byte) = 2 ^ (7 - col)"
    by (auto simp: drop_bit_eq_div)
  then show ?thesis
    by (simp add: and_exp_eq_0_iff_not_bit)
qed

lemma row_cell_step:
  "col < 8 \<Longrightarrow> x + col < 64 \<Longrightarrow>
   row_cell sprite x col j = ((j = x + col \<and> bit sprite (7 - col)) \<or> row_cell sprite x (col + 1) j)"
  by (cases "j = x + col") (auto simp: row_cell_def)

lemma row_cell_none: "\<not> col < 8 \<or> 64 \<le> x + col \<Longrightarrow> \<not> row_cell sprite x col j"
  by (auto simp: row_cell_def)

lemma draw_cols_eq:
  "draw_cols sprite x yr col c =
     c\<lparr>V := (if \<exists>j. row_cell sprite x col j \<and> Display c yr j then (V c)(15 := 1) else V c),
       Display := (\<lambda>r j. Display c r j \<noteq> (r = yr \<and> row_cell sprite x col j))\<rparr>"
proof (induction sprite x yr col c rule: draw_cols.induct)
  case (1 sprite x yr col c)
  show ?case
  proof (cases "col < 8 \<and> x + col < 64")
    case False
    then have "draw_cols sprite x yr col c = c"
      by (subst draw_cols.simps) auto
    moreover from False have "\<And>j. \<not> row_cell sprite x col j"
      by (intro row_cell_none) auto
    ultimately show ?thesis by simp
  next
    case True
    then have c8: "col < 8" and c64: "\<not> 64 \<le> x + col" by auto
    from True have c64': "x + col < 64" by simp
    note step = row_cell_step [OF c8 c64', of sprite]
    show ?thesis
    proof (cases "bit sprite (7 - col)")
      case False
      with c8 have nb: "\<not> sprite AND drop_bit col 0x80 \<noteq> 0"
        by (simp add: sprite_mask_bit)
      have "draw_cols sprite x yr col c = draw_cols sprite x yr (col + 1) c"
        using c8 c64 nb by (subst draw_cols.simps) simp
      also note "1.IH" (2) [OF c8 c64 nb]
      finally show ?thesis
        using False True by (simp add: step)
    next
      case bt: True
      with c8 have nb: "sprite AND drop_bit col 0x80 \<noteq> 0"
        by (simp add: sprite_mask_bit)
      define c1 where "c1 = (if Display c yr (x + col) then c\<lparr>V := (V c)(15 := 1)\<rparr> else c)"
      define c2 where "c2 = c1\<lparr>Display := (Display c1)(yr := (Display c1 yr)(x + col := \<not> Display c1 yr (x + col)))\<rparr>"
      have "draw_cols sprite x yr col c = draw_cols sprite x yr (col + 1) c2"
        using c8 c64 nb by (subst draw_cols.simps) (simp add: c1_def c2_def Let_def)
      also have "\<dots> = c2\<lparr>V := (if \<exists>j. row_cell sprite x (col + 1) j \<and> Display c2 yr j then (V c2)(15 := 1) else V c2),
       Display := (\<lambda>r j. Display c2 r j \<noteq> (r = yr \<and> row_cell sprite x (col + 1) j))\<rparr>"
        using "1.IH" (1) [OF c8 c64 nb c1_def c2_def] .
      finally have res: "draw_cols sprite x yr col c =
          c2\<lparr>V := (if \<exists>j. row_cell sprite x (col + 1) j \<and> Display c2 yr j
                     then (V c2)(15 := 1) else V c2),
             Display := (\<lambda>r j. Display c2 r j \<noteq> (r = yr \<and> row_cell sprite x (col + 1) j))\<rparr>" .
      have D2: "Display c2 r j = (Display c r j \<noteq> (r = yr \<and> j = x + col))" for r j
        by (auto simp: c1_def c2_def)
      have V2: "V c2 = (if Display c yr (x + col) then (V c)(15 := 1) else V c)"
        by (simp add: c1_def c2_def)
      have fr: "c2\<lparr>V := v, Display := d\<rparr> = c\<lparr>V := v, Display := d\<rparr>" for v d
        by (simp add: c1_def c2_def)
      have ne: "row_cell sprite x (col + 1) j \<Longrightarrow> j \<noteq> x + col" for j
        by (simp add: row_cell_def)
      have st: "row_cell sprite x col j = (j = x + col \<or> row_cell sprite x (col + 1) j)" for j
        using step [of j] bt by simp
      have E: "(\<exists>j. row_cell sprite x col j \<and> Display c yr j) =
               (Display c yr (x + col) \<or> (\<exists>j. row_cell sprite x (col + 1) j \<and> Display c2 yr j))"
        using ne by (auto simp: st D2)
      have B: "(\<lambda>r j. Display c2 r j \<noteq> (r = yr \<and> row_cell sprite x (col + 1) j)) =
               (\<lambda>r j. Display c r j \<noteq> (r = yr \<and> row_cell sprite x col j))"
        using ne by (auto simp: fun_eq_iff st D2)
      have A: "(if \<exists>j. row_cell sprite x (col + 1) j \<and> Display c2 yr j
                then (V c2)(15 := 1) else V c2) =
               (if \<exists>j. row_cell sprite x col j \<and> Display c yr j then (V c)(15 := 1) else V c)"
        unfolding E V2 by auto
      show ?thesis
        unfolding res fr A B ..
    qed
  qed
qed

lemma rows_cell_none:
  "\<not> row < height \<or> DisplayHeight \<le> y + row \<Longrightarrow> \<not> rows_cell mem i x y row height r j"
  by (auto simp: rows_cell_def)

lemma rows_cell_step:
  "row < height \<Longrightarrow>
   rows_cell mem i x y row height r j =
     ((r = y + row \<and> r < DisplayHeight \<and> row_cell (mem (unat (i + of_nat row))) x 0 j) \<or>
      rows_cell mem i x y (row + 1) height r j)"
  by (cases "r = y + row") (auto simp: rows_cell_def)

lemma rows_cell_later: "rows_cell mem i x y (row + 1) height r j \<Longrightarrow> r \<noteq> y + row"
  by (simp add: rows_cell_def)

lemma rows_readable_step:
  "rows_readable c y row height \<Longrightarrow> I c1 = I c \<Longrightarrow> rows_readable c1 y (row + 1) height"
  by (simp add: rows_readable_def)

lemma draw_rows_eq:
  "rows_readable c y row height \<Longrightarrow>
   draw_rows x y height row c =
     Inr (c\<lparr>V := (if \<exists>r j. rows_cell (Memory c) (I c) x y row height r j \<and> Display c r j
                   then (V c)(15 := 1) else V c),
            Display := (\<lambda>r j. Display c r j \<noteq> rows_cell (Memory c) (I c) x y row height r j)\<rparr>)"
proof (induction x y height row c rule: draw_rows.induct)
  case (1 x y height row c)
  show ?case
  proof (cases "row < height \<and> y + row < DisplayHeight")
    case False
    then have "draw_rows x y height row c = Inr c"
      by (subst draw_rows.simps) auto
    moreover from False have "\<And>r j. \<not> rows_cell (Memory c) (I c) x y row height r j"
      by (intro rows_cell_none) auto
    ultimately show ?thesis by simp
  next
    case True
    then have lt: "row < height" and nb: "\<not> DisplayHeight \<le> y + row" by auto
    from "1.prems" True have rd: "unat (I c + of_nat row) < MemorySize"
      by (simp add: rows_readable_def)
    define sprite where "sprite = Memory c (unat (I c + of_nat row))"
    define c1 where "c1 = draw_cols sprite x (y + row) 0 c"
    have c1: "c1 = c\<lparr>V := (if \<exists>j. row_cell sprite x 0 j \<and> Display c (y + row) j
                              then (V c)(15 := 1) else V c),
                      Display := (\<lambda>r j. Display c r j \<noteq> (r = y + row \<and> row_cell sprite x 0 j))\<rparr>"
      unfolding c1_def by (rule draw_cols_eq)
    have M1: "Memory c1 = Memory c" and I1: "I c1 = I c"
      by (simp_all add: c1)
    have D1: "Display c1 r j = (Display c r j \<noteq> (r = y + row \<and> row_cell sprite x 0 j))" for r j
      by (simp add: c1)
    have V1: "V c1 = (if \<exists>j. row_cell sprite x 0 j \<and> Display c (y + row) j
                       then (V c)(15 := 1) else V c)"
      by (simp add: c1)
    have fr: "c1\<lparr>V := v, Display := d\<rparr> = c\<lparr>V := v, Display := d\<rparr>" for v d
      by (simp add: c1)
    have rd1: "rows_readable c1 y (row + 1) height"
      using "1.prems" I1 by (rule rows_readable_step)
    have "draw_rows x y height row c = draw_rows x y height (row + 1) c1"
      using lt nb rd by (subst draw_rows.simps) (simp add: c1_def sprite_def)
    also note "1.IH" [OF lt nb rd, unfolded sprite_def [symmetric] c1_def [symmetric], OF rd1]
    finally have res: "draw_rows x y height row c =
        Inr (c1\<lparr>V := (if \<exists>r j. rows_cell (Memory c) (I c) x y (row + 1) height r j \<and> Display c1 r j
                        then (V c1)(15 := 1) else V c1),
               Display := (\<lambda>r j. Display c1 r j \<noteq> rows_cell (Memory c) (I c) x y (row + 1) height r j)\<rparr>)"
      by (simp only: M1 I1)
    note ne = rows_cell_later [of "Memory c" "I c" x y row height]
    have st: "rows_cell (Memory c) (I c) x y row height r j =
               ((r = y + row \<and> row_cell sprite x 0 j) \<or>
                rows_cell (Memory c) (I c) x y (row + 1) height r j)" for r j
      using rows_cell_step [OF lt, of "Memory c" "I c" x y r j] True by (auto simp: sprite_def)
    have E: "(\<exists>r j. rows_cell (Memory c) (I c) x y row height r j \<and> Display c r j) =
             ((\<exists>j. row_cell sprite x 0 j \<and> Display c (y + row) j) \<or>
              (\<exists>r j. rows_cell (Memory c) (I c) x y (row + 1) height r j \<and> Display c1 r j))"
      using ne by (auto simp: st D1)
    have B: "(\<lambda>r j. Display c1 r j \<noteq> rows_cell (Memory c) (I c) x y (row + 1) height r j) =
             (\<lambda>r j. Display c r j \<noteq> rows_cell (Memory c) (I c) x y row height r j)"
      using ne by (auto simp: fun_eq_iff st D1)
    have A: "(if \<exists>r j. rows_cell (Memory c) (I c) x y (row + 1) height r j \<and> Display c1 r j
              then (V c1)(15 := 1) else V c1) =
             (if \<exists>r j. rows_cell (Memory c) (I c) x y row height r j \<and> Display c r j
              then (V c)(15 := 1) else V c)"
      unfolding E V1 by auto
    show ?thesis
      unfolding res fr A B ..
  qed
qed

lemma draw_cols_I: "I (draw_cols sprite x yr col c) = I c"
  by (simp add: draw_cols_eq)

lemma draw_rows_fail:
  "row \<le> k \<Longrightarrow> k < height \<Longrightarrow> y + k < DisplayHeight \<Longrightarrow> \<not> unat (I c + of_nat k) < MemorySize \<Longrightarrow>
   draw_rows x y height row c = Inl IndexOutOfRange"
proof (induction x y height row c rule: draw_rows.induct)
  case (1 x y height row c)
  from "1.prems" have lt: "row < height" and nb: "\<not> DisplayHeight \<le> y + row" by auto
  show ?case
  proof (cases "unat (I c + of_nat row) < MemorySize")
    case False
    with lt nb show ?thesis
      by (subst draw_rows.simps) simp
  next
    case True
    with "1.prems" have "row \<noteq> k" by auto
    with "1.prems" have "row + 1 \<le> k" by simp
    from "1.IH" [OF lt nb True this] "1.prems"
    have "draw_rows x y height (row + 1)
            (draw_cols (Memory c (unat (I c + of_nat row))) x (y + row) 0 c) = Inl IndexOutOfRange"
      by (simp add: draw_cols_I)
    with lt nb True show ?thesis
      by (subst draw_rows.simps) simp
  qed
qed

lemma draw_rows_Inr_iff:
  "(\<exists>c'. draw_rows x y height row c = Inr c') \<longleftrightarrow> rows_readable c y row height"
proof
  assume "rows_readable c y row height"
  then show "\<exists>c'. draw_rows x y height row c = Inr c'"
    by (simp add: draw_rows_eq)
next
  assume ok: "\<exists>c'. draw_rows x y height row c = Inr c'"
  show "rows_readable c y row height"
    unfolding rows_readable_def
  proof (intro allI impI, elim conjE)
    fix k
    assume "row \<le> k" and "k < height" and "y + k < DisplayHeight"
    then have "\<not> unat (I c + of_nat k) < MemorySize \<Longrightarrow> draw_rows x y height row c = Inl IndexOutOfRange"
      by (rule draw_rows_fail)
    with ok show "unat (I c + of_nat k) < MemorySize"
      by fastforce
  qed
qed

lemma sprite_pixel_rows_cell:
  "sprite_pixel c x y height r j = rows_cell (Memory c) (I c) x y 0 height r j"
  by (auto simp: sprite_pixel_def rows_cell_def row_cell_def)

lemma sprite_pixel_in_grid: "sprite_pixel c x y height r j \<Longrightarrow> r < DisplayHeight \<and> j < DisplayWidth"
  by (simp add: sprite_pixel_def)

lemma exec_D_eq:
  assumes "\<forall>row<unat (op AND 0x000F).
             unat (V c (Yreg op)) mod DisplayHeight + row < DisplayHeight \<longrightarrow>
             unat (I c + of_nat row) < MemorySize"
  shows "exec_D op c = Inr (draw_sprite_spec op c)"
proof -
  define x where "x = unat (V c (Xreg op)) mod DisplayWidth"
  define y where "y = unat (V c (Yreg op)) mod DisplayHeight"
  define height where "height = unat (op AND 0x000F)"
  define c1 where "c1 = c\<lparr>V := (V c)(VFRegister := 0)\<rparr>"
  from assms have "rows_readable c1 y 0 height"
    by (simp add: rows_readable_def c1_def y_def height_def)
  then have "draw_rows x y height 0 c1 =
     Inr (c1\<lparr>V := (if \<exists>r j. rows_cell (Memory c1) (I c1) x y 0 height r j \<and> Display c1 r j
                   then (V c1)(15 := 1) else V c1),
            Display := (\<lambda>r j. Display c1 r j \<noteq> rows_cell (Memory c1) (I c1) x y 0 height r j)\<rparr>)"
    by (rule draw_rows_eq)
  also have "(\<lambda>r j. rows_cell (Memory c1) (I c1) x y 0 height r j) = sprite_pixel c x y height"
    by (simp add: fun_eq_iff sprite_pixel_rows_cell c1_def)
  finally have dr: "draw_rows x y height 0 c1 =
     Inr (c1\<lparr>V := (if \<exists>r j. sprite_pixel c x y height r j \<and> Display c1 r j
                   then (V c1)(15 := 1) else V c1),
            Display := (\<lambda>r j. Display c1 r j \<noteq> sprite_pixel c x y height r j)\<rparr>)" .
  have ex: "(\<exists>r j. sprite_pixel c x y height r j \<and> Display c r j) =
            (\<exists>r<DisplayHeight. \<exists>j<DisplayWidth. sprite_pixel c x y height r j \<and> Display c r j)"
    using sprite_pixel_in_grid [of c x y height] by blast
  have "exec_D op c =
      (case draw_rows x y height 0 c1 of Inl e \<Rightarrow> Inl e | Inr c2 \<Rightarrow> Inr (c2\<lparr>DrawFlag := True\<rparr>))"
    by (simp add: exec_D_def Let_def x_def y_def height_def c1_def)
  also have "\<dots> = Inr (draw_sprite_spec op c)"
    unfolding dr
    by (auto simp: draw_sprite_spec_def Bex_def Let_def x_def [symmetric] y_def [symmetric]
        height_def [symmetric] c1_def ex)
  finally show ?thesis .
qed

lemma exec_D_Inr_iff:
  "(\<exists>c'. exec_D op c = Inr c') \<longleftrightarrow>
   (\<forall>row<unat (op AND 0x000F).
       unat (V c (Yreg op)) mod DisplayHeight + row < DisplayHeight \<longrightarrow>
       unat (I c + of_nat row) < MemorySize)"
proof -
  have "(\<exists>c'. exec_D op c = Inr c') \<longleftrightarrow>
        (\<exists>c'. draw_rows (unat (V c (Xreg op)) mod DisplayWidth) (unat (V c (Yreg op)) mod DisplayHeight)
                (unat (op AND 0x000F)) 0 (c\<lparr>V := (V c)(VFRegister := 0)\<rparr>) = Inr c')"
    by (auto simp: exec_D_def Let_def split: sum.splits)
  then show ?thesis
    by (auto simp: draw_rows_Inr_iff rows_readable_def)
qed

lemma EmulateCycle_draw:
  "fetch c = Some op \<Longrightarrow> op AND 0xF000 = 0xD000 \<Longrightarrow>
   EmulateCycle rnd c = exec_D op (c\<lparr>PC := PC c + 2\<rparr>)"
  by (simp add: EmulateCycle_def execute_def Let_def)

lemma exec_D_fail:
  assumes "row < unat (op AND 0x000F)"
    and "unat (V c (Yreg op)) mod DisplayHeight + row < DisplayHeight"
    and "\<not> unat (I c + of_nat row) < MemorySize"
  shows "exec_D op c = Inl IndexOutOfRange"
proof -
  have "draw_rows (unat (V c (Xreg op)) mod DisplayWidth) (unat (V c (Yreg op)) mod DisplayHeight)
          (unat (op AND 0x000F)) 0 (c\<lparr>V := (V c)(VFRegister := 0)\<rparr>) = Inl IndexOutOfRange"
    using assms by (intro draw_rows_fail [of 0 row]) simp_all
  then show ?thesis
    by (simp add: exec_D_def Let_def)
qed

text \<open>
  Claim C7, as amended. When the sprite rows that are drawn lie inside memory, the draw
  instruction executes, and the machine after the cycle is the one the specification
  describes: the sprite starts at (register x mod 64, register y mod 32), its rows are
  read from memory at the index register, cells outside the grid are clipped, each sprite
  bit is XORed into the display, register 15 is the collision flag, the draw flag is set,
  and only the program counter changes besides. When a row that is drawn lies outside
  memory, the cycle aborts with an index out of range.
\<close>

theorem draw_instruction_meets_spec:
  assumes "fetch c = Some op" and "op AND 0xF000 = 0xD000"
  shows "((\<forall>row<unat (op AND 0x000F).
             unat (V c (Yreg op)) mod DisplayHeight + row < DisplayHeight \<longrightarrow>
             unat (I c + of_nat row) < MemorySize) \<longrightarrow>
          EmulateCycle rnd c = Inr (draw_sprite_spec op (c\<lparr>PC := PC c + 2\<rparr>))) \<and>
         (\<not> (\<forall>row<unat (op AND 0x000F).
               unat (V c (Yreg op)) mod DisplayHeight + row < DisplayHeight \<longrightarrow>
               unat (I c + of_nat row) < MemorySize) \<longrightarrow>
          EmulateCycle rnd c = Inl IndexOutOfRange)"
proof (intro conjI impI)
  assume "\<forall>row<unat (op AND 0x000F).
            unat (V c (Yreg op)) mod DisplayHeight + row < DisplayHeight \<longrightarrow>
            unat (I c + of_nat row) < MemorySize"
  with assms show "EmulateCycle rnd c = Inr (draw_sprite_spec op (c\<lparr>PC := PC c + 2\<rparr>))"
    by (simp add: EmulateCycle_draw exec_D_eq)
next
  assume "\<not> (\<forall>row<unat (op AND 0x000F).
               unat (V c (Yreg op)) mod DisplayHeight + row < DisplayHeight \<longrightarrow>
               unat (I c + of_nat row) < MemorySize)"
  then obtain row where "row < unat (op AND 0x000F)"
    and "unat (V c (Yreg op)) mod DisplayHeight + row < DisplayHeight"
    and "\<not> unat (I c + of_nat row) < MemorySize"
    by blast
  then have "exec_D op (c\<lparr>PC := PC c + 2\<rparr>) = Inl IndexOutOfRange"
    by (intro exec_D_fail [of row]) simp_all
  with assms show "EmulateCycle rnd c = Inl IndexOutOfRange"
    by (simp add: EmulateCycle_draw)
qed

theorem draw_instruction_meets_spec_witness:
  "fetch clip_state = Some 0xD011 \<and> (0xD011 :: u16) AND 0xF000 = 0xD000 \<and>
   unat (I clip_state) < MemorySize \<and>
   EmulateCycle 0 clip_state = Inr (draw_sprite_spec 0xD011 (clip_state\<lparr>PC := 0x202\<rparr>)) \<and>
   Display (draw_sprite_spec 0xD011 (clip_state\<lparr>PC := 0x202\<rparr>)) 1 62 \<and>
   Display (draw_sprite_spec 0xD011 (clip_state\<lparr>PC := 0x202\<rparr>)) 1 63 \<and>
   \<not> Display (draw_sprite_spec 0xD011 (clip_state\<lparr>PC := 0x202\<rparr>)) 1 0 \<and>
   \<not> Display (draw_sprite_spec 0xD011 (clip_state\<lparr>PC := 0x202\<rparr>)) 1 1 \<and>
   V (draw_sprite_spec 0xD011 (clip_state\<lparr>PC := 0x202\<rparr>)) 15 = 0 \<and>
   DrawFlag (draw_sprite_spec 0xD011 (clip_state\<lparr>PC := 0x202\<rparr>))"
proof -
  have f: "fetch clip_state = Some 0xD011"
    by (simp add: clip_state_def fetch_def boot_simps)
  have a: "(0xD011 :: u16) AND 0xF000 = 0xD000"
    by simp
  have i: "unat (I clip_state) < MemorySize"
    by (simp add: clip_state_def boot_simps)
  then have r: "\<forall>row<unat ((0xD011 :: u16) AND 0x000F).
           unat (V clip_state (Yreg 0xD011)) mod DisplayHeight + row < DisplayHeight \<longrightarrow>
           unat (I clip_state + of_nat row) < MemorySize"
    by simp
  have pc: "PC clip_state + 2 = 0x202"
    by (simp add: clip_state_def boot_simps)
  have xy: "Xreg 0xD011 = 0" "Yreg 0xD011 = 1"
    by (simp_all add: Xreg_def Yreg_def)
  have m: "Memory clip_state 0 = 0xF0" and d: "Display clip_state = (\<lambda>r j. False)"
    by (simp_all add: clip_state_def boot_simps fontSet_def fun_eq_iff)
  have v: "V clip_state 0 = 126" "V clip_state (Suc 0) = 33" "I clip_state = 0"
    by (simp_all add: clip_state_def boot_simps)
  from draw_instruction_meets_spec [OF f a, of 0, THEN conjunct1, THEN mp, OF r]
  have "EmulateCycle 0 clip_state = Inr (draw_sprite_spec 0xD011 (clip_state\<lparr>PC := 0x202\<rparr>))"
    by (simp only: pc)
  with f a i show ?thesis
    by (simp add: draw_sprite_spec_def Bex_def sprite_pixel_def Let_def xy m d v)
qed

text \<open>
  Claim C7 as stated fails when a sprite row lies outside memory: the program
  \<open>AF FF D0 02\<close> sets the index register to \<open>0xFFF\<close> and draws two rows; the second row
  is read at address \<open>0x1000\<close>, and the cycle aborts before the draw flag is set.
\<close>

theorem draw_sprite_row_outside_memory:
  "EmulateCycle 0 (boot [0xAF, 0xFF, 0xD0, 0x02]) =
     Inr ((boot [0xAF, 0xFF, 0xD0, 0x02])\<lparr>PC := 0x202, I := 0xFFF\<rparr>) \<and>
   fetch ((boot [0xAF, 0xFF, 0xD0, 0x02])\<lparr>PC := 0x202, I := 0xFFF\<rparr>) = Some 0xD002 \<and>
   EmulateCycle 0 ((boot [0xAF, 0xFF, 0xD0, 0x02])\<lparr>PC := 0x202, I := 0xFFF\<rparr>) =
     Inl IndexOutOfRange"
proof -
  let ?c = "boot [0xAF, 0xFF, 0xD0, 0x02]"
  let ?d = "?c\<lparr>PC := 0x202, I := 0xFFF\<rparr>"
  have e1: "EmulateCycle 0 ?c = Inr ?d"
    by (simp add: cycle_simps boot_simps)
  have f: "fetch ?d = Some 0xD002"
    by (simp add: fetch_def boot_simps)
  have a: "(0xD002 :: u16) AND 0xF000 = 0xD000"
    by simp
  have "exec_D 0xD002 (?d\<lparr>PC := PC ?d + 2\<rparr>) = Inl IndexOutOfRange"
    by (rule exec_D_fail [of 1]) (simp_all add: boot_simps Yreg_def)
  with EmulateCycle_draw [OF f a, of 0] have e2: "EmulateCycle 0 ?d = Inl IndexOutOfRange"
    by simp
  from e1 f e2 show ?thesis
    by simp
qed

lemma sprite_pixel_cong:
  "Memory c1 = Memory c \<Longrightarrow> I c1 = I c \<Longrightarrow> sprite_pixel c1 x y h r j = sprite_pixel c x y h r j"
  by (simp add: sprite_pixel_def)

lemma sprite_pixel_PC: "sprite_pixel (c\<lparr>PC := p\<rparr>) = sprite_pixel c"
  by (simp add: fun_eq_iff sprite_pixel_def)

lemma sprite_pixel_single_row:
  "(\<exists>r<DisplayHeight. \<exists>j<DisplayWidth. sprite_pixel c x y 1 r j) \<longleftrightarrow>
   y < DisplayHeight \<and> (\<exists>k<8. x + k < DisplayWidth \<and> bit (Memory c (unat (I c))) (7 - k))"
proof
  assume "\<exists>r<DisplayHeight. \<exists>j<DisplayWidth. sprite_pixel c x y 1 r j"
  then obtain r j where "sprite_pixel c x y 1 r j" by blast
  then have "r = y" and "y < DisplayHeight" and "x \<le> j" and "j < x + 8" and "j < DisplayWidth"
    and "bit (Memory c (unat (I c))) (7 - (j - x))"
    by (auto simp: sprite_pixel_def)
  then have "j - x < 8 \<and> x + (j - x) < DisplayWidth \<and> bit (Memory c (unat (I c))) (7 - (j - x))"
    by auto
  with \<open>y < DisplayHeight\<close> show "y < DisplayHeight \<and> (\<exists>k<8. x + k < DisplayWidth \<and> bit (Memory c (unat (I c))) (7 - k))"
    by blast
next
  assume "y < DisplayHeight \<and> (\<exists>k<8. x + k < DisplayWidth \<and> bit (Memory c (unat (I c))) (7 - k))"
  then obtain k where "y < DisplayHeight" "k < 8" "x + k < DisplayWidth" "bit (Memory c (unat (I c))) (7 - k)"
    by blast
  then have "sprite_pixel c x y 1 y (x + k)"
    by (simp add: sprite_pixel_def)
  with \<open>y < DisplayHeight\<close> \<open>x + k < DisplayWidth\<close> show "\<exists>r<DisplayHeight. \<exists>j<DisplayWidth. sprite_pixel c x y 1 r j"
    by blast
qed

text \<open>
  Claim C8, as amended. On a cleared display, with the sprite row inside memory, a
  one-row draw sets register 15 to 0. The same instruction executed again at the same
  coordinates restores the cleared display, and sets register 15 to 1 exactly when the
  sprite row has a set bit inside the grid; a row with no visible set bit gives 0.
\<close>

theorem draw_twice:
  assumes "fetch c = Some op" and "op AND 0xF000 = 0xD000" and "op AND 0x000F = 1"
    and "unat (I c) < MemorySize"
    and "\<forall>r<DisplayHeight. \<forall>j<DisplayWidth. \<not> Display c r j"
  shows "\<exists>c1. EmulateCycle r1 c = Inr c1 \<and> V c1 15 = 0 \<and>
           (fetch c1 = Some op \<and>
            unat (V c1 (Xreg op)) mod DisplayWidth = unat (V c (Xreg op)) mod DisplayWidth \<and>
            unat (V c1 (Yreg op)) mod DisplayHeight = unat (V c (Yreg op)) mod DisplayHeight \<longrightarrow>
            (\<exists>c2. EmulateCycle r2 c1 = Inr c2 \<and>
                  V c2 15 = (if \<exists>k<8. unat (V c (Xreg op)) mod DisplayWidth + k < DisplayWidth \<and>
                                       bit (Memory c (unat (I c))) (7 - k)
                             then 1 else 0) \<and>
                  (\<forall>r<DisplayHeight. \<forall>j<DisplayWidth. \<not> Display c2 r j)))"
proof -
  define x where "x = unat (V c (Xreg op)) mod DisplayWidth"
  define y where "y = unat (V c (Yreg op)) mod DisplayHeight"
  define c1 where "c1 = draw_sprite_spec op (c\<lparr>PC := PC c + 2\<rparr>)"
  have y32: "y < DisplayHeight"
    by (simp add: y_def)
  have e1: "EmulateCycle r1 c = Inr c1"
    unfolding c1_def using assms(1,2)
    by (simp add: EmulateCycle_draw exec_D_eq assms(3,4))
  have D1: "Display c1 r j = (Display c r j \<noteq> sprite_pixel c x y 1 r j)" for r j
    by (simp add: c1_def draw_sprite_spec_def Bex_def Let_def assms(3) x_def y_def sprite_pixel_PC)
  have D1': "r < DisplayHeight \<Longrightarrow> j < DisplayWidth \<Longrightarrow> Display c1 r j = sprite_pixel c x y 1 r j" for r j
    using assms(5) by (simp add: D1)
  have V1: "V c1 15 = 0"
    using assms(5) by (simp add: c1_def draw_sprite_spec_def Bex_def Let_def)
  have M1: "Memory c1 = Memory c" and I1: "I c1 = I c"
    by (simp_all add: c1_def draw_sprite_spec_def Bex_def Let_def)
  have second: "\<exists>c2. EmulateCycle r2 c1 = Inr c2 \<and>
                  V c2 15 = (if \<exists>k<8. x + k < DisplayWidth \<and> bit (Memory c (unat (I c))) (7 - k)
                             then 1 else 0) \<and>
                  (\<forall>r<DisplayHeight. \<forall>j<DisplayWidth. \<not> Display c2 r j)"
    if f1: "fetch c1 = Some op"
      and x1: "unat (V c1 (Xreg op)) mod DisplayWidth = x"
      and y1: "unat (V c1 (Yreg op)) mod DisplayHeight = y"
  proof -
    define c2 where "c2 = draw_sprite_spec op (c1\<lparr>PC := PC c1 + 2\<rparr>)"
    have e2: "EmulateCycle r2 c1 = Inr c2"
      unfolding c2_def using f1 assms(2)
      by (simp add: EmulateCycle_draw exec_D_eq assms(3,4) I1)
    have sp1: "sprite_pixel c1 = sprite_pixel c"
      by (simp add: fun_eq_iff sprite_pixel_cong M1 I1)
    have D2: "Display c2 r j = (Display c1 r j \<noteq> sprite_pixel c x y 1 r j)" for r j
      by (simp add: c2_def draw_sprite_spec_def Bex_def Let_def assms(3) x1 y1 sprite_pixel_PC sp1)
    have "V c2 15 = (if \<exists>r<DisplayHeight. \<exists>j<DisplayWidth.
                          sprite_pixel c x y 1 r j \<and> Display c1 r j then 1 else 0)"
      by (simp add: c2_def draw_sprite_spec_def Bex_def Let_def assms(3) x1 y1 sprite_pixel_PC sp1)
    also have "(\<exists>r<DisplayHeight. \<exists>j<DisplayWidth. sprite_pixel c x y 1 r j \<and> Display c1 r j) =
               (\<exists>r<DisplayHeight. \<exists>j<DisplayWidth. sprite_pixel c x y 1 r j)"
      using D1' by blast
    also have "\<dots> = (\<exists>k<8. x + k < DisplayWidth \<and> bit (Memory c (unat (I c))) (7 - k))"
      using y32 sprite_pixel_single_row [of c x y] by blast
    finally have V2: "V c2 15 = (if \<exists>k<8. x + k < DisplayWidth \<and> bit (Memory c (unat (I c))) (7 - k)
                                 then 1 else 0)" .
    have "\<forall>r<DisplayHeight. \<forall>j<DisplayWidth. \<not> Display c2 r j"
      by (simp add: D2 D1')
    with e2 V2 show ?thesis by blast
  qed
  from e1 V1 second show ?thesis
    unfolding x_def y_def by blast
qed

theorem draw_twice_witness:
  "fetch (boot [0xD0, 0x11, 0xD0, 0x11]) = Some 0xD011 \<and>
   (0xD011 :: u16) AND 0xF000 = 0xD000 \<and> (0xD011 :: u16) AND 0x000F = 1 \<and>
   unat (I (boot [0xD0, 0x11, 0xD0, 0x11])) < MemorySize \<and>
   Memory (boot [0xD0, 0x11, 0xD0, 0x11]) 0 = 0xF0 \<and>
   (\<exists>c1. EmulateCycle 0 (boot [0xD0, 0x11, 0xD0, 0x11]) = Inr c1 \<and> V c1 15 = 0 \<and>
         fetch c1 = Some 0xD011 \<and>
         (\<exists>c2. EmulateCycle 0 c1 = Inr c2 \<and> V c2 15 = 1 \<and>
               (\<forall>r<DisplayHeight. \<forall>j<DisplayWidth. \<not> Display c2 r j)))"
proof -
  let ?c = "boot [0xD0, 0x11, 0xD0, 0x11]"
  have f: "fetch ?c = Some 0xD011"
    by (simp add: fetch_def boot_simps)
  have a: "(0xD011 :: u16) AND 0xF000 = 0xD000" and b: "(0xD011 :: u16) AND 0x000F = 1"
    by simp_all
  have i: "unat (I ?c) < MemorySize" and i0: "I ?c = 0"
    by (simp_all add: boot_simps)
  have d: "\<forall>r<DisplayHeight. \<forall>j<DisplayWidth. \<not> Display ?c r j"
    by (simp add: boot_simps)
  have m: "Memory ?c 0 = 0xF0"
    by (simp add: boot_simps fontSet_def)
  have xy: "Xreg 0xD011 = 0" "Yreg 0xD011 = 1"
    by (simp_all add: Xreg_def Yreg_def)
  have r: "\<forall>row<unat ((0xD011 :: u16) AND 0x000F).
           unat (V ?c (Yreg 0xD011)) mod DisplayHeight + row < DisplayHeight \<longrightarrow>
           unat (I ?c + of_nat row) < MemorySize"
    using i by simp
  have e: "EmulateCycle 0 ?c = Inr (draw_sprite_spec 0xD011 (?c\<lparr>PC := PC ?c + 2\<rparr>))"
    using f a r by (simp add: EmulateCycle_draw exec_D_eq)
  from draw_twice [OF f a b i d, of 0 0] obtain c1 where
    e1: "EmulateCycle 0 ?c = Inr c1" and v1: "V c1 15 = 0" and
    imp: "fetch c1 = Some 0xD011 \<and>
          unat (V c1 (Xreg 0xD011)) mod DisplayWidth = unat (V ?c (Xreg 0xD011)) mod DisplayWidth \<and>
          unat (V c1 (Yreg 0xD011)) mod DisplayHeight = unat (V ?c (Yreg 0xD011)) mod DisplayHeight \<longrightarrow>
          (\<exists>c2. EmulateCycle 0 c1 = Inr c2 \<and>
                V c2 15 = (if \<exists>k<8. unat (V ?c (Xreg 0xD011)) mod DisplayWidth + k < DisplayWidth \<and>
                                     bit (Memory ?c (unat (I ?c))) (7 - k)
                           then 1 else 0) \<and>
                (\<forall>r<DisplayHeight. \<forall>j<DisplayWidth. \<not> Display c2 r j))"
    by blast
  from e e1 have c1: "c1 = draw_sprite_spec 0xD011 (?c\<lparr>PC := PC ?c + 2\<rparr>)"
    by simp
  have f1: "fetch c1 = Some 0xD011"
    unfolding c1 by (simp add: draw_sprite_spec_def Bex_def Let_def fetch_def boot_simps)
  have same: "V c1 (Xreg 0xD011) = V ?c (Xreg 0xD011)" "V c1 (Yreg 0xD011) = V ?c (Yreg 0xD011)"
    unfolding c1 by (simp_all add: draw_sprite_spec_def Bex_def Let_def xy)
  have vis: "\<exists>k<8. unat (V ?c (Xreg 0xD011)) mod DisplayWidth + k < DisplayWidth \<and>
                   bit (Memory ?c (unat (I ?c))) (7 - k)"
    by (rule exI [of _ 0]) (simp add: i0 m)
  from imp f1 same vis obtain c2 where
    "EmulateCycle 0 c1 = Inr c2" and "V c2 15 = 1" and
    "\<forall>r<DisplayHeight. \<forall>j<DisplayWidth. \<not> Display c2 r j"
    by auto
  with f a b i m e1 v1 f1 show ?thesis
    by blast
qed

text \<open>
  Claim C8 as stated fails for a sprite row without set bits: both draws of the zero byte at
  address \<open>0x300\<close> leave register 15 at 0.
\<close>

theorem draw_twice_blank_sprite:
  "fetch blank_sprite_state = Some 0xD001 \<and>
   EmulateCycle 0 blank_sprite_state = Inr (blank_sprite_state\<lparr>PC := 0x202\<rparr>) \<and>
   fetch (blank_sprite_state\<lparr>PC := 0x202\<rparr>) = Some 0xD001 \<and>
   EmulateCycle 0 (blank_sprite_state\<lparr>PC := 0x202\<rparr>) = Inr (blank_sprite_state\<lparr>PC := 0x204\<rparr>) \<and>
   V (blank_sprite_state\<lparr>PC := 0x204\<rparr>) 15 = 0 \<and>
   Display blank_sprite_state = (\<lambda>r j. False)"
proof -
  let ?c = blank_sprite_state
  have f: "fetch ?c = Some 0xD001" and g: "fetch (?c\<lparr>PC := 0x202\<rparr>) = Some 0xD001"
    by (simp_all add: blank_sprite_state_def fetch_def boot_simps)
  have a: "(0xD001 :: u16) AND 0xF000 = 0xD000"
    by simp
  have i: "I ?c = 0x300" and m: "Memory ?c 768 = 0" and v: "V ?c = (\<lambda>_. 0)"
    and d: "Display ?c = (\<lambda>r j. False)" and fl: "DrawFlag ?c" and pc: "PC ?c = 0x200"
    by (simp_all add: blank_sprite_state_def boot_simps fun_eq_iff)
  have r: "\<forall>row<unat ((0xD001 :: u16) AND 0x000F).
           unat (V (?c\<lparr>PC := p\<rparr>) (Yreg 0xD001)) mod DisplayHeight + row < DisplayHeight \<longrightarrow>
           unat (I (?c\<lparr>PC := p\<rparr>) + of_nat row) < MemorySize" for p
    by (simp add: i)
  have sp: "\<not> sprite_pixel ?c x y 1 r j" for x y r j
    by (auto simp: sprite_pixel_def i m)
  have spec: "draw_sprite_spec 0xD001 (?c\<lparr>PC := p\<rparr>) = ?c\<lparr>PC := p\<rparr>" for p
  proof -
    have "draw_sprite_spec 0xD001 (?c\<lparr>PC := p\<rparr>) =
          ?c\<lparr>PC := p, V := V ?c, Display := Display ?c, DrawFlag := DrawFlag ?c\<rparr>"
      using sp by (simp add: draw_sprite_spec_def Bex_def Let_def sprite_pixel_PC v d fl fun_eq_iff)
    then show ?thesis by simp
  qed
  have e1: "EmulateCycle 0 ?c = Inr (?c\<lparr>PC := 0x202\<rparr>)"
    using f a r [of "PC ?c"] by (simp add: EmulateCycle_draw exec_D_eq spec pc)
  have e2: "EmulateCycle 0 (?c\<lparr>PC := 0x202\<rparr>) = Inr (?c\<lparr>PC := 0x204\<rparr>)"
    using g a r [of "0x202"] by (simp add: EmulateCycle_draw exec_D_eq spec)
  from f g e1 e2 v d show ?thesis
    by simp
qed

section \<open>Bounds of the cycle\<close>

lemma store_registers_Inr_iff:
  "(\<exists>c'. store_registers x i c = Inr c') \<longleftrightarrow>
   (\<forall>k. i \<le> k \<and> k \<le> x \<longrightarrow> unat (I c + of_nat k) < MemorySize)"
proof (induction x i c rule: store_registers.induct)
  case (1 x i c)
  show ?case
  proof (cases "i \<le> x")
    case False
    then show ?thesis
      by (subst store_registers.simps) simp
  next
    case True
    show ?thesis
    proof (cases "unat (I c + of_nat i) < MemorySize")
      case False
      with True show ?thesis
        by (subst store_registers.simps) auto
    next
      case rd: True
      have split: "(i \<le> k) = (k = i \<or> i + 1 \<le> k)" for k
        by auto
      from "1.IH" [OF True rd] True rd show ?thesis
        by (subst store_registers.simps) (auto simp: split)
    qed
  qed
qed

lemma load_registers_Inr_iff:
  "(\<exists>c'. load_registers x i c = Inr c') \<longleftrightarrow>
   (\<forall>k. i \<le> k \<and> k \<le> x \<longrightarrow> unat (I c + of_nat k) < MemorySize)"
proof (induction x i c rule: load_registers.induct)
  case (1 x i c)
  show ?case
  proof (cases "i \<le> x \<and> unat (I c + of_nat i) < MemorySize")
    case False
    then show ?thesis
      by (subst load_registers.simps) auto
  next
    case True
    then have le: "i \<le> x" and rd: "unat (I c + of_nat i) < MemorySize" by auto
    have "(\<exists>c'. load_registers x i c = Inr c') \<longleftrightarrow>
          (\<exists>c'. load_registers x (i + 1) (c\<lparr>V := (V c)(i := Memory c (unat (I c + of_nat i)))\<rparr>) = Inr c')"
      using le rd by (subst load_registers.simps) simp
    also have "\<dots> \<longleftrightarrow> (\<forall>k. i + 1 \<le> k \<and> k \<le> x \<longrightarrow> unat (I c + of_nat k) < MemorySize)"
      using "1.IH" [OF le rd] by simp
    also have "\<dots> \<longleftrightarrow> (\<forall>k. i \<le> k \<and> k \<le> x \<longrightarrow> unat (I c + of_nat k) < MemorySize)"
      using rd by (metis Suc_eq_plus1 Suc_leI le_neq_implies_less Suc_leD)
    finally show ?thesis .
  qed
qed

lemma unat_byte_minus_one: "unat (- 1 :: byte) = 255"
  by (simp add: unsigned_minus_1_eq_mask mask_eq_exp_minus_1)

lemma return_slot_in_bounds:
  "unat (s - 1) < StackSize \<longleftrightarrow> 1 \<le> unat s \<and> unat s \<le> StackSize" for s :: byte
proof (cases "s = 0")
  case True
  then show ?thesis by (simp add: unat_byte_minus_one)
next
  case False
  then have "unat (s - 1) = unat s - 1" and "0 < unat s"
    by (simp_all add: unat_minus_one unat_gt_0)
  then show ?thesis by auto
qed

lemma exec_0_Inr_iff:
  "(\<exists>c'. exec_0 op c = Inr c') \<longleftrightarrow>
   (op AND 0x00FF = 0x00EE \<longrightarrow> 1 \<le> unat (SP c) \<and> unat (SP c) \<le> StackSize)"
  by (simp add: exec_0_def Let_def return_slot_in_bounds)

lemma exec_E_Inr_iff:
  "(\<exists>c'. exec_E op c = Inr c') \<longleftrightarrow>
   (op AND 0x00FF = 0x009E \<or> op AND 0x00FF = 0x00A1 \<longrightarrow> unat (V c (Xreg op)) < KeyCount)"
  by (simp add: exec_E_def Let_def)

lemma exec_F_Inr_iff:
  "(\<exists>c'. exec_F op c = Inr c') \<longleftrightarrow>
   (op AND 0x00FF = 0x0033 \<longrightarrow>
      unat (I c) < MemorySize \<and> unat (I c + 1) < MemorySize \<and> unat (I c + 2) < MemorySize) \<and>
   (op AND 0x00FF = 0x0055 \<or> op AND 0x00FF = 0x0065 \<longrightarrow>
      (\<forall>i\<le>Xreg op. unat (I c + of_nat i) < MemorySize))"
  by (simp add: exec_F_def Let_def store_registers_Inr_iff load_registers_Inr_iff
      split: prod.splits)

lemma execute_Inr_iff:
  "(\<exists>c'. execute rnd op c = Inr c') \<longleftrightarrow> instr_in_bounds op c"
  by (simp add: execute_def instr_in_bounds_def Ball_def Let_def exec_0_Inr_iff exec_D_Inr_iff
      exec_E_Inr_iff exec_F_Inr_iff)

text \<open>
  Claim C2, as amended. The interpreter checks no index, so a cycle runs through exactly
  when the indices it uses are in range: the program counter is at most 4094; a return
  finds the stack pointer between 1 and 16; a call finds it at most 15; a key test finds
  a register value below 16; the sprite rows drawn, the three BCD bytes and the registers
  stored or loaded lie below address 4096, the addresses being computed in 16 bits. In
  every other machine state the cycle aborts with an index out of range.
\<close>

theorem EmulateCycle_in_bounds:
  "(\<exists>c'. EmulateCycle rnd c = Inr c') \<longleftrightarrow> cycle_in_bounds c"
proof (cases "fetch c")
  case None
  then show ?thesis
    by (simp add: EmulateCycle_def cycle_in_bounds_def)
next
  case (Some op)
  then have "unat (PC c) < MemorySize \<and> unat (PC c + 1) < MemorySize"
    by (simp add: fetch_def split: if_splits)
  moreover have "instr_in_bounds op (c\<lparr>PC := PC c + 2\<rparr>) = instr_in_bounds op c"
    by (simp add: instr_in_bounds_def Ball_def)
  ultimately show ?thesis
    using Some by (simp add: EmulateCycle_def cycle_in_bounds_def execute_Inr_iff)
qed

theorem EmulateCycle_in_bounds_witness:
  "cycle_in_bounds (boot [0x22, 0x04]) \<and> (\<exists>c'. EmulateCycle 0 (boot [0x22, 0x04]) = Inr c') \<and>
   \<not> cycle_in_bounds ((boot [0x22, 0x04])\<lparr>SP := 16\<rparr>) \<and>
   EmulateCycle 0 ((boot [0x22, 0x04])\<lparr>SP := 16\<rparr>) = Inl IndexOutOfRange"
proof -
  have a: "cycle_in_bounds (boot [0x22, 0x04])"
    by (simp add: cycle_in_bounds_def instr_in_bounds_def Ball_def fetch_def boot_simps)
  have b: "\<not> cycle_in_bounds ((boot [0x22, 0x04])\<lparr>SP := 16\<rparr>)"
    by (simp add: cycle_in_bounds_def instr_in_bounds_def Ball_def fetch_def boot_simps)
  have c: "EmulateCycle 0 ((boot [0x22, 0x04])\<lparr>SP := 16\<rparr>) = Inl IndexOutOfRange"
    by (simp add: cycle_simps boot_simps)
  from a b c EmulateCycle_in_bounds [of 0 "boot [0x22, 0x04]"] show ?thesis
    by simp
qed

text \<open>
  Claim C2 as stated fails on a reachable machine: after loading the program \<open>00 EE\<close>
  the first cycle is a return with stack pointer 0, which reads \<open>Stack[255]\<close>.
\<close>

theorem return_on_empty_stack_aborts:
  "reachable (boot [0x00, 0xEE]) \<and> SP (boot [0x00, 0xEE]) = 0 \<and>
   fetch (boot [0x00, 0xEE]) = Some 0x00EE \<and>
   EmulateCycle 0 (boot [0x00, 0xEE]) = Inl IndexOutOfRange"
proof -
  have "reachable (boot [0x00, 0xEE])"
    unfolding boot_def by (intro reachable.load reachable.start)
  moreover have "EmulateCycle 0 (boot [0x00, 0xEE]) = Inl IndexOutOfRange"
    by (simp add: cycle_simps exec_0_def boot_simps unat_byte_minus_one)
  moreover have "fetch (boot [0x00, 0xEE]) = Some 0x00EE" "SP (boot [0x00, 0xEE]) = 0"
    by (simp_all add: fetch_def boot_simps)
  ultimately show ?thesis by simp
qed

end
